theory Spec2Isabelle
  imports Complex_Main "HOL-Library.Multiset"
begin

section \<open>Text\<close>

text \<open>
  The extractor works on Python \<open>str\<close> values.  A text is modelled as the list of its
  code points, and every code point is a \<^typ>\<open>char\<close>, that is a code point below 256.
  This range holds every character the source's patterns and indicator words mention
  (the multiplication sign is \<open>0xD7\<close>, the copyright sign \<open>0xA9\<close>); the character
  classes below are those of Python 3 on this range.  \<open>len\<close> is \<^const>\<open>length\<close>.
\<close>

definition ord :: "char \<Rightarrow> nat" where
  "ord c = of_char c"

text \<open>\<open>str.isspace\<close>, which is also what \<open>str.strip()\<close> removes and what \<open>\s\<close> matches.\<close>

definition isspace :: "char \<Rightarrow> bool" where
  "isspace c = (let n = ord c in
     (9 \<le> n \<and> n \<le> 13) \<or> (28 \<le> n \<and> n \<le> 32) \<or> n = 133 \<or> n = 160)"

text \<open>The decimal digits, which is what \<open>\d\<close> matches.\<close>

definition isdecimal :: "char \<Rightarrow> bool" where
  "isdecimal c = (let n = ord c in 48 \<le> n \<and> n \<le> 57)"

text \<open>\<open>str.isdigit\<close> of one character: the decimal digits and the superscripts 1, 2, 3.\<close>

definition isdigit_char :: "char \<Rightarrow> bool" where
  "isdigit_char c = (let n = ord c in (48 \<le> n \<and> n \<le> 57) \<or> n = 178 \<or> n = 179 \<or> n = 185)"

text \<open>\<open>str.isdigit\<close>: every character is a digit and there is at least one.\<close>

definition isdigit :: "string \<Rightarrow> bool" where
  "isdigit s = (s \<noteq> [] \<and> list_all isdigit_char s)"

text \<open>What \<open>\w\<close> matches: alphanumeric characters and the underscore.\<close>

definition isword :: "char \<Rightarrow> bool" where
  "isword c = (let n = ord c in
     (48 \<le> n \<and> n \<le> 57) \<or> (65 \<le> n \<and> n \<le> 90) \<or> n = 95 \<or> (97 \<le> n \<and> n \<le> 122)
     \<or> n = 170 \<or> n = 178 \<or> n = 179 \<or> n = 181 \<or> n = 185 \<or> n = 186
     \<or> (188 \<le> n \<and> n \<le> 190) \<or> (192 \<le> n \<and> n \<le> 214) \<or> (216 \<le> n \<and> n \<le> 246)
     \<or> 248 \<le> n)"

text \<open>\<open>str.lower\<close> of one character.\<close>

definition lower_char :: "char \<Rightarrow> char" where
  "lower_char c = (let n = ord c in
     if (65 \<le> n \<and> n \<le> 90) \<or> (192 \<le> n \<and> n \<le> 222 \<and> n \<noteq> 215) then char_of (n + 32) else c)"

definition lower :: "string \<Rightarrow> string" where
  "lower s = map lower_char s"

definition strip :: "string \<Rightarrow> string" where
  "strip s = rev (dropWhile isspace (rev (dropWhile isspace s)))"

fun starts_with :: "string \<Rightarrow> string \<Rightarrow> bool" where
  "starts_with [] s = True"
| "starts_with (p # ps) [] = False"
| "starts_with (p # ps) (c # cs) = (p = c \<and> starts_with ps cs)"

text \<open>The substring test \<open>sub in s\<close>.\<close>

fun contains :: "string \<Rightarrow> string \<Rightarrow> bool" where
  "contains sub [] = (sub = [])"
| "contains sub (c # cs) = (starts_with sub (c # cs) \<or> contains sub cs)"

text \<open>
  \<open>s.split(sep)\<close> for a non-empty separator: the pieces between the occurrences of
  \<open>sep\<close>, found from left to right without overlap; empty pieces are kept.  \<open>cur\<close> is
  the piece being read.  Python raises \<open>ValueError\<close> on an empty separator; the source
  only splits on the literals of \<open>separators\<close> and on the newline.
\<close>

function split_from :: "string \<Rightarrow> string \<Rightarrow> string \<Rightarrow> string list" where
  "split_from sep cur s =
     (if sep \<noteq> [] \<and> starts_with sep s then cur # split_from sep [] (drop (length sep) s)
      else case s of [] \<Rightarrow> [cur] | c # cs \<Rightarrow> split_from sep (cur @ [c]) cs)"
  by pat_completeness auto
termination
proof (relation "measure (\<lambda>(sep, cur, s). length s)")
  show "wf (measure (\<lambda>(sep, cur, s). length s))" by simp
next
  fix sep cur s :: string
  assume "sep \<noteq> [] \<and> starts_with sep s"
  then have "s \<noteq> []" by (cases sep; cases s) auto
  with \<open>sep \<noteq> [] \<and> starts_with sep s\<close>
  show "((sep, [], drop (length sep) s), (sep, cur, s)) \<in> measure (\<lambda>(sep, cur, s). length s)"
    by (cases sep; cases s) auto
next
  fix sep cur s :: string and c cs
  assume "s = c # cs"
  then show "((sep, cur @ [c], cs), (sep, cur, s)) \<in> measure (\<lambda>(sep, cur, s). length s)"
    by simp
qed

declare split_from.simps [simp del]

definition split :: "string \<Rightarrow> string \<Rightarrow> string list" where
  "split s sep = split_from sep [] s"

section \<open>Regular expressions\<close>

text \<open>
  The three patterns of \<open>__init__\<close> are written as syntax trees and run by a
  backtracking matcher with the priorities of Python's \<open>re\<close>: the left alternative
  first, greedy repetition (the longest count first).
\<close>

datatype atom = Chr char | OneOf "char list" | Digit | Space

datatype rx =
    Eps
  | Atom atom
  | WordB
  | Seq rx rx
  | Alt rx rx
  | Opt rx
  | Star rx
  | Plus rx
  | Rep nat nat rx

text \<open>One character against an atom; \<open>ic\<close> is the flag \<open>re.IGNORECASE\<close>.\<close>

fun atom_matches :: "bool \<Rightarrow> atom \<Rightarrow> char \<Rightarrow> bool" where
  "atom_matches ic (Chr p) c = (if ic then lower_char p = lower_char c else p = c)"
| "atom_matches ic (OneOf ps) c =
     (if ic then list_ex (\<lambda>p. lower_char p = lower_char c) ps else list_ex (\<lambda>p. p = c) ps)"
| "atom_matches ic Digit c = isdecimal c"
| "atom_matches ic Space c = isspace c"

text \<open>
  A position in the subject: the character before it (none at the start) and the text
  from it on.
\<close>

type_synonym pos = "char option \<times> string"

definition at_boundary :: "pos \<Rightarrow> bool" where
  "at_boundary p =
     ((case fst p of None \<Rightarrow> False | Some c \<Rightarrow> isword c)
      \<noteq> (case snd p of [] \<Rightarrow> False | c # _ \<Rightarrow> isword c))"

text \<open>
  Greedy repetition of a matcher \<open>f\<close>: first one more round, then stop.  A round that
  consumes nothing ends the repetition, and \<open>n\<close> bounds the rounds by the length of the
  text left.
\<close>

fun star :: "(pos \<Rightarrow> pos list) \<Rightarrow> nat \<Rightarrow> pos \<Rightarrow> pos list" where
  "star f 0 p = [p]"
| "star f (Suc n) p =
     concat (map (star f n) (filter (\<lambda>q. length (snd q) < length (snd p)) (f p))) @ [p]"

text \<open>Between \<open>lo\<close> and \<open>hi\<close> rounds of \<open>f\<close>, the most rounds first.\<close>

fun rep :: "(pos \<Rightarrow> pos list) \<Rightarrow> nat \<Rightarrow> nat \<Rightarrow> pos \<Rightarrow> pos list" where
  "rep f 0 0 p = [p]"
| "rep f (Suc lo) 0 p = []"
| "rep f 0 (Suc hi) p = concat (map (rep f 0 hi) (f p)) @ [p]"
| "rep f (Suc lo) (Suc hi) p = concat (map (rep f lo hi) (f p))"

text \<open>
  All the ways \<open>r\<close> matches at a position, as the positions after the match, in the
  order in which a backtracking matcher finds them.
\<close>

fun matches :: "bool \<Rightarrow> rx \<Rightarrow> pos \<Rightarrow> pos list" where
  "matches ic Eps p = [p]"
| "matches ic (Atom a) p =
     (case snd p of [] \<Rightarrow> [] | c # cs \<Rightarrow> if atom_matches ic a c then [(Some c, cs)] else [])"
| "matches ic WordB p = (if at_boundary p then [p] else [])"
| "matches ic (Seq r1 r2) p = concat (map (\<lambda>q. matches ic r2 q) (matches ic r1 p))"
| "matches ic (Alt r1 r2) p = matches ic r1 p @ matches ic r2 p"
| "matches ic (Opt r) p = matches ic r p @ [p]"
| "matches ic (Star r) p = star (\<lambda>q. matches ic r q) (length (snd p)) p"
| "matches ic (Plus r) p =
     concat (map (\<lambda>q. star (\<lambda>q'. matches ic r q') (length (snd q)) q) (matches ic r p))"
| "matches ic (Rep lo hi r) p = rep (\<lambda>q. matches ic r q) lo hi p"

text \<open>
  \<open>pattern.search(s)\<close> followed by \<open>group(0)\<close>: the first match at the leftmost position
  that has one, or \<open>None\<close>.
\<close>

fun search_from :: "bool \<Rightarrow> rx \<Rightarrow> char option \<Rightarrow> string \<Rightarrow> string option" where
  "search_from ic r prev [] =
     (case matches ic r (prev, []) of [] \<Rightarrow> None | q # _ \<Rightarrow> Some [])"
| "search_from ic r prev (c # cs) =
     (case matches ic r (prev, c # cs) of
        [] \<Rightarrow> search_from ic r (Some c) cs
      | q # _ \<Rightarrow> Some (take (length (c # cs) - length (snd q)) (c # cs)))"

text \<open>A compiled pattern: the flag \<open>re.IGNORECASE\<close> and the expression.\<close>

type_synonym pattern = "bool \<times> rx"

definition search :: "pattern \<Rightarrow> string \<Rightarrow> string option" where
  "search pat s = search_from (fst pat) (snd pat) None s"

definition lit :: "string \<Rightarrow> rx" where
  "lit s = foldr (\<lambda>c r. Seq (Atom (Chr c)) r) s Eps"

text \<open>\<open>\d+(\.\d+)?\<close>\<close>

definition number :: rx where
  "number = Seq (Plus (Atom Digit)) (Opt (Seq (Atom (Chr CHR ''.'')) (Plus (Atom Digit))))"

text \<open>\<open>\s*[x\<times>]\s*\<close>, the second character of the class being the multiplication sign.\<close>

definition times_sign :: rx where
  "times_sign = Seq (Star (Atom Space)) (Seq (Atom (OneOf [CHR ''x'', CHR 0xD7])) (Star (Atom Space)))"

text \<open>\<open>\b(19|20)\d{2}\b\<close>\<close>

definition year_pattern :: pattern where
  "year_pattern = (False,
     Seq WordB (Seq (Alt (lit ''19'') (lit ''20'')) (Seq (Rep 2 2 (Atom Digit)) WordB)))"

text \<open>
  \<open>\b\d+(\.\d+)?\s*[x\<times>]\s*\d+(\.\d+)?(\s*[x\<times>]\s*\d+(\.\d+)?)?\s*(cm|in|inches|mm)\b\<close>,
  ignoring case.
\<close>

definition dimensions_pattern :: pattern where
  "dimensions_pattern = (True,
     Seq WordB (Seq number (Seq times_sign (Seq number
       (Seq (Opt (Seq times_sign number))
         (Seq (Star (Atom Space))
           (Seq (Alt (lit ''cm'') (Alt (lit ''in'') (Alt (lit ''inches'') (lit ''mm''))))
             WordB)))))))"

text \<open>\<open>\d{1,3}(?:,\d{3})*(?:\.\d+)?\<close>\<close>

definition amount :: rx where
  "amount = Seq (Rep 1 3 (Atom Digit))
     (Seq (Star (Seq (Atom (Chr CHR '','')) (Rep 3 3 (Atom Digit))))
       (Opt (Seq (Atom (Chr CHR ''.'')) (Plus (Atom Digit)))))"

text \<open>
  \<open>\$\s*\d{1,3}(?:,\d{3})*(?:\.\d+)?|\d{1,3}(?:,\d{3})*(?:\.\d+)?\s*(?:USD|EUR|GBP)\<close>,
  ignoring case.
\<close>

definition price_pattern :: pattern where
  "price_pattern = (True,
     Alt (Seq (Atom (Chr CHR ''$'')) (Seq (Star (Atom Space)) amount))
         (Seq amount (Seq (Star (Atom Space))
            (Alt (lit ''USD'') (Alt (lit ''EUR'') (lit ''GBP''))))))"

definition separators :: "string list" where
  "separators = ['','', ''|'', ''  '', [CHR 0x0A]]"

text \<open>\<open>is_likely_metadata\<close>; the third indicator is the copyright sign.\<close>

definition metadata_indicators :: "string list" where
  "metadata_indicators = [''page'', ''copyright'', [CHR 0xA9], ''all rights'', ''gallery'',
     ''contact'', ''email'', ''phone'', ''website'', ''www'']"

definition is_likely_metadata :: "string \<Rightarrow> bool" where
  "is_likely_metadata text = (let text_lower = lower text in
     list_ex (\<lambda>indicator. contains indicator text_lower) metadata_indicators)"

section \<open>Artwork records\<close>

record Artwork =
  title :: string
  artist :: string
  year :: string
  dimensions :: string
  medium :: string
  price :: "string option"
  image_path :: "string option"
  image_data :: "string option"
  page_number :: nat
  confidence_score :: real

text \<open>\<open>Artwork(page_number=n)\<close>: every other field at its default.\<close>

definition new_Artwork :: "nat \<Rightarrow> Artwork" where
  "new_Artwork n = \<lparr>title = [], artist = [], year = [], dimensions = [], medium = [],
     price = None, image_path = None, image_data = None, page_number = n,
     confidence_score = 0\<rparr>"

text \<open>
  The strategies mutate the record they are given.  The model passes the record along
  and, beside it, the list of the assignments made to its six text fields so far, in the
  order in which they happen: one entry for every executed \<open>artwork.f = v\<close>.
\<close>

datatype field = Title | Artist | Year | Dimensions | Medium | Price

type_synonym state = "Artwork \<times> (field \<times> string) list"

fun store :: "field \<Rightarrow> string \<Rightarrow> Artwork \<Rightarrow> Artwork" where
  "store Title v a = a\<lparr>title := v\<rparr>"
| "store Artist v a = a\<lparr>artist := v\<rparr>"
| "store Year v a = a\<lparr>year := v\<rparr>"
| "store Dimensions v a = a\<lparr>dimensions := v\<rparr>"
| "store Medium v a = a\<lparr>medium := v\<rparr>"
| "store Price v a = a\<lparr>price := Some v\<rparr>"

definition assign :: "field \<Rightarrow> string \<Rightarrow> state \<Rightarrow> state" where
  "assign f v s = (store f v (fst s), snd s @ [(f, v)])"

text \<open>Truth value of \<open>artwork.price\<close>, an optional string: \<open>None\<close> and \<open>""\<close> are false.\<close>

definition has_price :: "Artwork \<Rightarrow> bool" where
  "has_price a = (case price a of None \<Rightarrow> False | Some v \<Rightarrow> v \<noteq> [])"

text \<open>\<open>sum(1 for f in [title, artist, year, dimensions, medium] if f)\<close>\<close>

definition fields_found :: "Artwork \<Rightarrow> nat" where
  "fields_found a =
     length (filter (\<lambda>f. f \<noteq> []) [title a, artist a, year a, dimensions a, medium a])"

text \<open>
  \<open>artwork.confidence_score = fields_found / 5.0\<close>.  The score is a Python float; the
  quotient of an integer from 0 to 5 by 5.0 is the float nearest to the exact quotient,
  as the literal \<open>0.6\<close> is the float nearest to 3/5, so the comparison with \<open>0.6\<close> has the
  outcome of the exact one, which the model computes.
\<close>

definition set_confidence :: "state \<Rightarrow> state" where
  "set_confidence s = ((fst s)\<lparr>confidence_score := real (fields_found (fst s)) / 5\<rparr>, snd s)"

section \<open>Strategy A: one field per line\<close>

text \<open>
  The first loop of \<open>parse_artwork_linebreak_format\<close>, over \<open>lines[:5]\<close>, with its two
  flags.
\<close>

fun scan_head :: "string list \<Rightarrow> bool \<Rightarrow> bool \<Rightarrow> state \<Rightarrow> state" where
  "scan_head [] found_artist found_title s = s"
| "scan_head (line # rest) found_artist found_title s =
     (if length line < 3 \<or> isdigit line then scan_head rest found_artist found_title s
      else if \<not> found_artist \<and> \<not> is_likely_metadata line
        then scan_head rest True found_title (assign Artist line s)
      else if found_artist \<and> \<not> found_title \<and> \<not> is_likely_metadata line
        then scan_head rest found_artist True (assign Title line s)
      else if found_artist \<and> found_title then s
      else scan_head rest found_artist found_title s)"

text \<open>
  The blocks "Extract year", "Extract dimensions" and "Extract price", which both
  strategies run on a line or part: a field that is still empty takes \<open>group(0)\<close> of the
  first match of its pattern, if there is one.
\<close>

definition extract_year :: "string \<Rightarrow> state \<Rightarrow> state" where
  "extract_year line s =
     (if year (fst s) = []
      then (case search year_pattern line of
              Some year_match \<Rightarrow> assign Year year_match s | None \<Rightarrow> s)
      else s)"

definition extract_dimensions :: "string \<Rightarrow> state \<Rightarrow> state" where
  "extract_dimensions line s =
     (if dimensions (fst s) = []
      then (case search dimensions_pattern line of
              Some dim_match \<Rightarrow> assign Dimensions dim_match s | None \<Rightarrow> s)
      else s)"

definition extract_price :: "string \<Rightarrow> state \<Rightarrow> state" where
  "extract_price line s =
     (if \<not> has_price (fst s)
      then (case search price_pattern line of
              Some price_match \<Rightarrow> assign Price price_match s | None \<Rightarrow> s)
      else s)"

text \<open>The test of the medium block that no pattern is found in the line or part.\<close>

definition no_pattern :: "string \<Rightarrow> bool" where
  "no_pattern line =
     (search year_pattern line = None \<and> search dimensions_pattern line = None
      \<and> search price_pattern line = None)"

text \<open>The body of the second loop, for one line.\<close>

definition linebreak_line :: "string \<Rightarrow> state \<Rightarrow> state" where
  "linebreak_line line0 s =
     (let line = strip line0 in
      if line = [] then s
      else
        let s3 = extract_price line (extract_dimensions line (extract_year line s))
        in if medium (fst s3) = [] \<and> \<not> is_likely_metadata line \<and> length line > 5
           then if no_pattern line
                then if line \<noteq> artist (fst s3) \<and> line \<noteq> title (fst s3)
                     then assign Medium line s3 else s3
                else s3
           else s3)"

text \<open>\<open>[p.strip() for p in text.split(sep) if p.strip()]\<close>\<close>

definition stripped_parts :: "string \<Rightarrow> string \<Rightarrow> string list" where
  "stripped_parts text sep = map strip (filter (\<lambda>p. strip p \<noteq> []) (split text sep))"

definition parse_artwork_linebreak_format :: "string \<Rightarrow> state \<Rightarrow> bool \<times> state" where
  "parse_artwork_linebreak_format text s =
     (let lines = stripped_parts text [CHR 0x0A];
          s1 = scan_head (take 5 lines) False False s;
          s2 = fold linebreak_line lines s1;
          s3 = set_confidence s2
      in (confidence_score (fst s3) > 0.6, s3))"

section \<open>Strategy B: fields on one line\<close>

text \<open>The body of the loop over \<open>parts[2:]\<close>, for one part.\<close>

definition inline_part :: "string \<Rightarrow> state \<Rightarrow> state" where
  "inline_part part s =
     (let s3 = extract_price part (extract_dimensions part (extract_year part s))
      in if medium (fst s3) = [] \<and> \<not> is_likely_metadata part \<and> length part > 5
         then if no_pattern part then assign Medium part s3 else s3
         else s3)"

text \<open>
  One round of the loop over the separators.  The flag is true where the source returns
  \<open>True\<close> from inside the loop.
\<close>

definition inline_attempt :: "string \<Rightarrow> string \<Rightarrow> state \<Rightarrow> bool \<times> state" where
  "inline_attempt separator text s =
     (let parts = stripped_parts text separator in
      if length parts \<ge> 3 then
        let s1 = (if artist (fst s) = [] then assign Artist (parts ! 0) s else s);
            s2 = (if title (fst s1) = [] then assign Title (parts ! 1) s1 else s1);
            s3 = fold inline_part (drop 2 parts) s2;
            s4 = set_confidence s3
        in (confidence_score (fst s4) > 0.6, s4)
      else (False, s))"

fun inline_loop :: "string list \<Rightarrow> string \<Rightarrow> state \<Rightarrow> bool \<times> state" where
  "inline_loop [] text s = (False, s)"
| "inline_loop (separator # rest) text s =
     (case inline_attempt separator text s of
        (True, s') \<Rightarrow> (True, s')
      | (False, s') \<Rightarrow> inline_loop rest text s')"

definition parse_artwork_inline_format :: "string \<Rightarrow> state \<Rightarrow> bool \<times> state" where
  "parse_artwork_inline_format text s = inline_loop separators text s"

section \<open>The field extractor\<close>

datatype strategy = Linebreak | Inline

text \<open>
  What one call of \<open>extract_artwork_info_from_text\<close> does: the value it returns, the
  strategies it has called, in order, and the assignments they have made to the record.
\<close>

record extraction =
  returned :: "Artwork option"
  invoked :: "strategy list"
  assigned :: "(field \<times> string) list"

record image =
  xref :: nat
  width :: int
  height :: int
  image_bytes :: "nat list"
  extension :: string

definition SAVE_IMAGES :: bool where
  "SAVE_IMAGES = True"

text \<open>
  Writing the image file and encoding it belong to the file system and to \<open>base64\<close>; they
  are a parameter \<open>save\<close>, which is given the stem of the PDF's path, \<open>page_num\<close>,
  \<open>len(self.artworks)\<close> and the image, and gives \<open>image_path\<close> and \<open>image_data\<close>.
\<close>

type_synonym saver = "string \<Rightarrow> nat \<Rightarrow> nat \<Rightarrow> image \<Rightarrow> string \<times> string"

definition with_image ::
    "saver \<Rightarrow> string \<Rightarrow> nat \<Rightarrow> nat \<Rightarrow> image option \<Rightarrow> Artwork \<Rightarrow> Artwork" where
  "with_image save stem page_num n_artworks img artwork =
     (case img of
        None \<Rightarrow> artwork
      | Some i \<Rightarrow>
          if SAVE_IMAGES
          then artwork\<lparr>image_path := Some (fst (save stem page_num n_artworks i)),
                       image_data := Some (snd (save stem page_num n_artworks i))\<rparr>
          else artwork)"

text \<open>
  \<open>A(text, artwork) or B(text, artwork)\<close>: B is evaluated only when A is false, and on the
  record as A has left it.
\<close>

definition extract_artwork_info_from_text ::
    "saver \<Rightarrow> string \<Rightarrow> nat \<Rightarrow> string \<Rightarrow> nat \<Rightarrow> image option \<Rightarrow> extraction" where
  "extract_artwork_info_from_text save stem n_artworks text page_num img =
     (let artwork = new_Artwork (page_num + 1);
          (ok_a, s_a) = parse_artwork_linebreak_format text (artwork, [])
      in if ok_a
         then \<lparr>returned = Some (with_image save stem page_num n_artworks img (fst s_a)),
               invoked = [Linebreak], assigned = snd s_a\<rparr>
         else
           let (ok_b, s_b) = parse_artwork_inline_format text s_a
           in if ok_b
              then \<lparr>returned = Some (with_image save stem page_num n_artworks img (fst s_b)),
                    invoked = [Linebreak, Inline], assigned = snd s_b\<rparr>
              else \<lparr>returned = None, invoked = [Linebreak, Inline], assigned = snd s_b\<rparr>)"

section \<open>Pages and documents\<close>

text \<open>What \<open>doc.extract_image(xref)\<close> returns when it returns an image.\<close>

record base_image =
  base_width :: int
  base_height :: int
  base_image_bytes :: "nat list"
  base_ext :: string

text \<open>
  A page gives its text and the xrefs of \<open>get_images(full=True)\<close>; a document gives its
  pages and \<open>extract_image\<close>, whose false results are \<open>None\<close>.
\<close>

record page =
  get_text :: string
  get_images :: "nat list"

record document =
  pages :: "page list"
  extract_image :: "nat \<Rightarrow> base_image option"

text \<open>The state of a \<open>PDFArtworkExtractor\<close>; a path is modelled by its stem.\<close>

record extractor =
  pdf_path :: string
  doc :: document
  artworks :: "Artwork list"

definition image_of :: "nat \<Rightarrow> base_image \<Rightarrow> image" where
  "image_of x b = \<lparr>xref = x, width = base_width b, height = base_height b,
     image_bytes = base_image_bytes b, extension = base_ext b\<rparr>"

text \<open>The loop of \<open>extract_images\<close> over \<open>image_list\<close>.\<close>

fun collect_images :: "document \<Rightarrow> nat list \<Rightarrow> image list" where
  "collect_images d [] = []"
| "collect_images d (x # image_list) =
     (case extract_image d x of
        None \<Rightarrow> collect_images d image_list
      | Some base \<Rightarrow>
          let image_data = image_of x base
          in if width image_data > 100 \<and> height image_data > 100
             then image_data # collect_images d image_list
             else collect_images d image_list)"

text \<open>
  \<open>images.sort(key=..., reverse=True)\<close>: Python's sort is stable, also when reversed, so
  it is the stable sort by the negated key.
\<close>

definition extract_images :: "document \<Rightarrow> page \<Rightarrow> image list" where
  "extract_images d p =
     sort_key (\<lambda>x. - (width x * height x)) (collect_images d (get_images p))"

definition is_main_artwork_page :: "string \<Rightarrow> bool" where
  "is_main_artwork_page text =
     (let has_dimensions = (search dimensions_pattern text \<noteq> None);
          has_year = (search year_pattern text \<noteq> None)
      in has_dimensions \<and> has_year)"

definition split_page_into_sections :: "page \<Rightarrow> image list \<Rightarrow> (string \<times> image option) list" where
  "split_page_into_sections p images =
     (let page_text = get_text p
      in if images = [] then [(page_text, None)]
         else map (\<lambda>image. (page_text, Some image)) (take 1 images))"

text \<open>
  What happens on a page, as far as the claims need it: the line printed for a page that
  is skipped, and each call of the field extractor with its text and page number.
\<close>

datatype event = Skipping nat | FieldExtractor string nat

definition extract_artwork_info ::
    "saver \<Rightarrow> extractor \<Rightarrow> page \<Rightarrow> nat \<Rightarrow> image option \<Rightarrow> Artwork option \<times> event list" where
  "extract_artwork_info save self p page_num img =
     (let text = get_text p
      in (returned (extract_artwork_info_from_text save (pdf_path self)
                      (length (artworks self)) text page_num img),
          [FieldExtractor text page_num]))"

text \<open>The loop of \<open>process_page\<close> over the sections.\<close>

fun process_sections ::
    "saver \<Rightarrow> extractor \<Rightarrow> nat \<Rightarrow> (string \<times> image option) list \<Rightarrow> Artwork list \<times> event list" where
  "process_sections save self page_num [] = ([], [])"
| "process_sections save self page_num ((section_text, img) # sections) =
     (let artwork = returned (extract_artwork_info_from_text save (pdf_path self)
                      (length (artworks self)) section_text page_num img);
          (found, events) = process_sections save self page_num sections
      in ((case artwork of None \<Rightarrow> [] | Some a \<Rightarrow> [a]) @ found,
          FieldExtractor section_text page_num # events))"

definition process_page ::
    "saver \<Rightarrow> extractor \<Rightarrow> page \<Rightarrow> nat \<Rightarrow> Artwork list \<times> event list" where
  "process_page save self p page_num =
     (let text = get_text p;
          images = extract_images (doc self) p
      in if images = [] \<or> (length text > 2000 \<and> length images < 2)
         then ([], [Skipping (page_num + 1)])
         else if length images = 1 \<or> (length images > 0 \<and> is_main_artwork_page text)
         then (case extract_artwork_info save self p page_num
                      (case images of [] \<Rightarrow> None | i # _ \<Rightarrow> Some i) of
                 (None, events) \<Rightarrow> ([], events)
               | (Some artwork, events) \<Rightarrow> ([artwork], events))
         else if length images > 1
         then process_sections save self page_num (split_page_into_sections p images)
         else ([], []))"

text \<open>The loop of \<open>extract_all\<close> over \<open>enumerate(self.doc)\<close>.\<close>

fun extract_pages ::
    "saver \<Rightarrow> extractor \<Rightarrow> page list \<Rightarrow> nat \<Rightarrow> extractor \<times> event list" where
  "extract_pages save self [] page_num = (self, [])"
| "extract_pages save self (p # ps) page_num =
     (let (found, events) = process_page save self p page_num;
          (self', events') =
            extract_pages save (self\<lparr>artworks := artworks self @ found\<rparr>) ps (page_num + 1)
      in (self', events @ events'))"

definition extract_all :: "saver \<Rightarrow> extractor \<Rightarrow> Artwork list" where
  "extract_all save self = artworks (fst (extract_pages save self (pages (doc self)) 0))"

section \<open>The batch\<close>

datatype error = DocumentOpenError

text \<open>\<open>PDFArtworkExtractor(pdf_path)\<close>: \<open>pymupdf.open\<close> may raise.\<close>

definition new_extractor ::
    "(string \<Rightarrow> error + document) \<Rightarrow> string \<Rightarrow> error + extractor" where
  "new_extractor pymupdf_open path =
     (case pymupdf_open path of
        Inl e \<Rightarrow> Inl e
      | Inr d \<Rightarrow> Inr \<lparr>pdf_path = path, doc = d, artworks = []\<rparr>)"

text \<open>The preview kept in the JSON files: \<open>image_data[:100] + '...'\<close> when longer than 100.\<close>

definition preview :: "Artwork \<Rightarrow> Artwork" where
  "preview a =
     (case image_data a of
        None \<Rightarrow> a
      | Some d \<Rightarrow> if d \<noteq> [] \<and> length d > 100
                  then a\<lparr>image_data := Some (take 100 d @ ''...'')\<rparr> else a)"

text \<open>
  The loop of \<open>process_pdf_files\<close> over \<open>file_list\<close>.  The JSON files written so far are
  a list of names with the records dumped; an exception ends the loop and leaves them.
\<close>

type_synonym files = "(string \<times> Artwork list) list"

fun process_files ::
    "(string \<Rightarrow> error + document) \<Rightarrow> saver \<Rightarrow> string list \<Rightarrow> Artwork list \<Rightarrow> files
      \<Rightarrow> files \<times> (error + Artwork list)" where
  "process_files pymupdf_open save [] all_artworks written = (written, Inr all_artworks)"
| "process_files pymupdf_open save (file_path # file_list) all_artworks written =
     (case new_extractor pymupdf_open file_path of
        Inl e \<Rightarrow> (written, Inl e)
      | Inr extractor \<Rightarrow>
          let found = extract_all save extractor;
              output_file = file_path @ ''_artworks.json''
          in process_files pymupdf_open save file_list (all_artworks @ found)
               (written @ [(output_file, map preview found)]))"

definition process_pdf_files ::
    "(string \<Rightarrow> error + document) \<Rightarrow> saver \<Rightarrow> string list \<Rightarrow> files \<times> (error + Artwork list)" where
  "process_pdf_files pymupdf_open save file_list =
     (case process_files pymupdf_open save file_list [] [] of
        (written, Inl e) \<Rightarrow> (written, Inl e)
      | (written, Inr all_artworks) \<Rightarrow>
          (if all_artworks \<noteq> []
           then written @ [(''all_artworks.json'', map preview all_artworks)]
           else written,
           Inr all_artworks))"

section \<open>Notions used to state the properties\<close>

text \<open>
  The image dictionaries that the loop of \<open>extract_images\<close> builds, before the test on
  their size: one for every xref whose image the document gives, in the order of
  \<open>image_list\<close>.
\<close>

fun raw_images :: "document \<Rightarrow> nat list \<Rightarrow> image list" where
  "raw_images d [] = []"
| "raw_images d (x # image_list) =
     (case extract_image d x of
        None \<Rightarrow> raw_images d image_list
      | Some base \<Rightarrow> image_of x base # raw_images d image_list)"

definition area :: "image \<Rightarrow> int" where
  "area x = width x * height x"

definition large :: "image \<Rightarrow> bool" where
  "large x = (width x > 100 \<and> height x > 100)"

text \<open>The text a field holds; a price that is \<open>None\<close> counts as empty.\<close>

fun field_value :: "field \<Rightarrow> Artwork \<Rightarrow> string" where
  "field_value Title a = title a"
| "field_value Artist a = artist a"
| "field_value Year a = year a"
| "field_value Dimensions a = dimensions a"
| "field_value Medium a = medium a"
| "field_value Price a = (case price a of None \<Rightarrow> [] | Some v \<Rightarrow> v)"

text \<open>
  The record and the list of assignments agree: no field was assigned twice, every
  assignment gave a non-empty text that the field still holds, and every non-empty
  field was assigned.
\<close>

definition agrees :: "state \<Rightarrow> bool" where
  "agrees s =
     (distinct (map fst (snd s))
      \<and> (\<forall>f v. (f, v) \<in> set (snd s) \<longrightarrow> v \<noteq> [] \<and> field_value f (fst s) = v)
      \<and> (\<forall>f. field_value f (fst s) \<noteq> [] \<longrightarrow> f \<in> fst ` set (snd s)))"

text \<open>
  From \<open>s\<close> to \<open>s'\<close> assignments were only added, and every field that was not empty in
  \<open>s\<close> holds the same text in \<open>s'\<close>.
\<close>

definition extends :: "state \<Rightarrow> state \<Rightarrow> bool" where
  "extends s s' =
     ((\<exists>w. snd s' = snd s @ w)
      \<and> (\<forall>f. field_value f (fst s) \<noteq> [] \<longrightarrow> field_value f (fst s') = field_value f (fst s)))"

text \<open>The score of a record is the number of its non-empty fields, of five, over 5.\<close>

definition scored :: "Artwork \<Rightarrow> bool" where
  "scored a = (confidence_score a = real (fields_found a) / 5)"

text \<open>
  The condition under which the specification has a page skipped: no image is retained,
  or the text is longer than 2000 characters and fewer than 2 images are retained.
\<close>

definition skips :: "extractor \<Rightarrow> page \<Rightarrow> bool" where
  "skips self p =
     (extract_images (doc self) p = []
      \<or> (length (get_text p) > 2000 \<and> length (extract_images (doc self) p) < 2))"

text \<open>The JSON file that \<open>process_pdf_files\<close> writes for one document.\<close>

definition json_file :: "saver \<Rightarrow> string \<Rightarrow> document \<Rightarrow> string \<times> Artwork list" where
  "json_file save path d =
     (path @ ''_artworks.json'',
      map preview (extract_all save \<lparr>pdf_path = path, doc = d, artworks = []\<rparr>))"

text \<open>
  What the scans offer to a field.  \<open>found\<close> is \<open>group(0)\<close> of the first match of a pattern
  in a text, empty when there is none; \<open>first_nonempty\<close> is the first non-empty text of a
  list, empty when there is none.  \<open>candidate f l\<close> is what a part \<open>l\<close> of Strategy B
  offers to the field \<open>f\<close>, and \<open>line_candidate a t f l\<close> what a line \<open>l\<close> of Strategy A
  offers when the artist is \<open>a\<close> and the title \<open>t\<close>.  A line is \<open>substantial\<close> when the
  first loop of Strategy A may take it as artist or title.
\<close>

definition first_nonempty :: "string list \<Rightarrow> string" where
  "first_nonempty vs = (case filter (\<lambda>v. v \<noteq> []) vs of [] \<Rightarrow> [] | v # _ \<Rightarrow> v)"

definition found :: "pattern \<Rightarrow> string \<Rightarrow> string" where
  "found pat l = (case search pat l of None \<Rightarrow> [] | Some m \<Rightarrow> m)"

fun candidate :: "field \<Rightarrow> string \<Rightarrow> string" where
  "candidate Year l = found year_pattern l"
| "candidate Dimensions l = found dimensions_pattern l"
| "candidate Price l = found price_pattern l"
| "candidate Medium l = (if \<not> is_likely_metadata l \<and> length l > 5 \<and> no_pattern l then l else [])"
| "candidate Artist l = []"
| "candidate Title l = []"

fun line_candidate :: "string \<Rightarrow> string \<Rightarrow> field \<Rightarrow> string \<Rightarrow> string" where
  "line_candidate a t Medium l = (if l \<noteq> a \<and> l \<noteq> t then candidate Medium l else [])"
| "line_candidate a t f l = candidate f l"

definition substantial :: "string \<Rightarrow> bool" where
  "substantial l = (\<not> (length l < 3 \<or> isdigit l) \<and> \<not> is_likely_metadata l)"

text \<open>What an attempt of Strategy B on the parts offers to a field.\<close>

fun attempt_candidate :: "field \<Rightarrow> string list \<Rightarrow> string" where
  "attempt_candidate Artist parts = parts ! 0"
| "attempt_candidate Title parts = parts ! 1"
| "attempt_candidate f parts = first_nonempty (map (candidate f) (drop 2 parts))"

text \<open>What Strategy A on the lines offers to a field.\<close>

definition linebreak_candidate :: "field \<Rightarrow> string list \<Rightarrow> string" where
  "linebreak_candidate f lines =
     (let heads = filter substantial (take 5 lines);
          a = (case heads of [] \<Rightarrow> [] | x # _ \<Rightarrow> x);
          t = (case heads of x # y # _ \<Rightarrow> y | _ \<Rightarrow> [])
      in case f of
           Artist \<Rightarrow> a
         | Title \<Rightarrow> t
         | _ \<Rightarrow> first_nonempty (map (\<lambda>l. line_candidate a t f (strip l)) lines))"

text \<open>The least number of characters a match of an expression takes.\<close>

fun min_len :: "rx \<Rightarrow> nat" where
  "min_len Eps = 0"
| "min_len (Atom a) = 1"
| "min_len WordB = 0"
| "min_len (Seq r1 r2) = min_len r1 + min_len r2"
| "min_len (Alt r1 r2) = min (min_len r1) (min_len r2)"
| "min_len (Opt r) = 0"
| "min_len (Star r) = 0"
| "min_len (Plus r) = min_len r"
| "min_len (Rep lo hi r) = lo * min_len r"

section \<open>Sample inputs\<close>

definition demo_images :: "nat \<Rightarrow> base_image option" where
  "demo_images x =
     (if x = 1 then Some \<lparr>base_width = 200, base_height = 200, base_image_bytes = [], base_ext = ''png''\<rparr>
      else if x = 2 then Some \<lparr>base_width = 50, base_height = 500, base_image_bytes = [], base_ext = ''png''\<rparr>
      else if x = 3 then Some \<lparr>base_width = 300, base_height = 300, base_image_bytes = [], base_ext = ''png''\<rparr>
      else if x = 4 then Some \<lparr>base_width = 400, base_height = 100, base_image_bytes = [], base_ext = ''png''\<rparr>
      else if x = 5 then Some \<lparr>base_width = 160, base_height = 250, base_image_bytes = [], base_ext = ''png''\<rparr>
      else None)"

definition demo_selector_doc :: document where
  "demo_selector_doc = \<lparr>pages = [], extract_image = demo_images\<rparr>"

definition demo_selector_page :: page where
  "demo_selector_page = \<lparr>get_text = [], get_images = [1, 2, 3, 4, 5, 6]\<rparr>"

definition text_linebreak :: string where
  "text_linebreak = ''Ann Lee'' @ [CHR 0x0A] @ ''Dusk'' @ [CHR 0x0A] @ ''1999'' @ [CHR 0x0A] @ ''2x3 cm''"

definition text_inline :: string where
  "text_inline = ''a,b,c|1999|oil on wood''"

definition text_plain :: string where
  "text_plain = ''abc''"

definition demo_save :: saver where
  "demo_save stem page_num n i = (stem @ ''.'' @ extension i, extension i)"

definition demo_doc :: document where
  "demo_doc = \<lparr>pages = [\<lparr>get_text = text_linebreak, get_images = [3]\<rparr>],
     extract_image = demo_images\<rparr>"

definition demo_extractor :: extractor where
  "demo_extractor = \<lparr>pdf_path = ''catalog'', doc = demo_doc, artworks = []\<rparr>"

text \<open>The text of scenario 3 of the specification.\<close>

definition scenario_3 :: string where
  "scenario_3 = ''Mary Smith, Blue Horizon, acrylic on canvas, 2021, 30x40 cm''"

definition demo_open :: "string \<Rightarrow> error + document" where
  "demo_open path = (if path = ''catalog'' then Inr demo_doc else Inl DocumentOpenError)"

section \<open>Matches are not empty\<close>

lemma star_shorter:
  assumes "\<And>p q. q \<in> set (f p) \<Longrightarrow> length (snd q) \<le> length (snd p)"
  shows "q \<in> set (star f n p) \<Longrightarrow> length (snd q) \<le> length (snd p)"
proof (induction n arbitrary: p q)
  case 0
  then show ?case by simp
next
  case (Suc n)
  from Suc.prems consider "q = p"
    | p' where "p' \<in> set (f p)" "length (snd p') < length (snd p)" "q \<in> set (star f n p')"
    by auto
  then show ?case
  proof cases
    case 1
    then show ?thesis by simp
  next
    case 2
    with Suc.IH [of q p'] show ?thesis by simp
  qed
qed

lemma rep_shorter:
  "(\<And>p q. q \<in> set (f p) \<Longrightarrow> length (snd q) + k \<le> length (snd p)) \<Longrightarrow>
   q \<in> set (rep f lo hi p) \<Longrightarrow> length (snd q) + lo * k \<le> length (snd p)"
proof (induction f lo hi p arbitrary: q rule: rep.induct)
  case (1 f p)
  then show ?case by simp
next
  case (2 f lo p)
  then show ?case by simp
next
  case (3 f hi p)
  from "3.prems"(2) consider "q = p" | p' where "p' \<in> set (f p)" "q \<in> set (rep f 0 hi p')"
    by auto
  then show ?case
  proof cases
    case 1
    then show ?thesis by simp
  next
    case 2
    from "3.IH" [OF 2(1) "3.prems"(1) 2(2)] "3.prems"(1) [OF 2(1)] show ?thesis by simp
  qed
next
  case (4 f lo hi p)
  from "4.prems"(2) obtain p' where p': "p' \<in> set (f p)" "q \<in> set (rep f lo hi p')"
    by auto
  from "4.IH" [OF p'(1) "4.prems"(1) p'(2)] "4.prems"(1) [OF p'(1)] show ?case by simp
qed

lemma matches_shorter:
  "q \<in> set (matches ic r p) \<Longrightarrow> length (snd q) + min_len r \<le> length (snd p)"
proof (induction r arbitrary: p q)
  case Eps
  then show ?case by simp
next
  case (Atom a)
  then show ?case by (cases "snd p") (auto split: if_splits)
next
  case WordB
  then show ?case by (auto split: if_splits)
next
  case (Seq r1 r2)
  from Seq.prems obtain p' where "p' \<in> set (matches ic r1 p)" "q \<in> set (matches ic r2 p')"
    by auto
  with Seq.IH(1) [of p' p] Seq.IH(2) [of q p'] show ?case by simp
next
  case (Alt r1 r2)
  then show ?case by fastforce
next
  case (Opt r)
  then show ?case by fastforce
next
  case (Star r)
  have "length (snd q') \<le> length (snd p')" if "q' \<in> set (matches ic r p')" for p' q'
    using Star.IH [OF that] by simp
  from star_shorter [of "\<lambda>q. matches ic r q", OF this] Star.prems show ?case by simp
next
  case (Plus r)
  from Plus.prems obtain p' where p': "p' \<in> set (matches ic r p)"
      "q \<in> set (star (\<lambda>q'. matches ic r q') (length (snd p')) p')"
    by auto
  have "length (snd q') \<le> length (snd p'')" if "q' \<in> set (matches ic r p'')" for p'' q'
    using Plus.IH [OF that] by simp
  from star_shorter [of "\<lambda>q. matches ic r q", OF this p'(2)] Plus.IH [OF p'(1)]
  show ?case by simp
next
  case (Rep lo hi r)
  have "length (snd q') + min_len r \<le> length (snd p')" if "q' \<in> set (matches ic r p')" for p' q'
    using Rep.IH [OF that] .
  from rep_shorter [of "\<lambda>q. matches ic r q", OF this] Rep.prems show ?case by simp
qed

lemma search_from_length:
  "search_from ic r prev s = Some m \<Longrightarrow> min_len r \<le> length m"
proof (induction s arbitrary: prev)
  case Nil
  then obtain q qs where "matches ic r (prev, []) = q # qs" "m = []"
    by (auto split: list.splits)
  with matches_shorter [of q ic r "(prev, [])"] show ?case by simp
next
  case (Cons c cs)
  show ?case
  proof (cases "matches ic r (prev, c # cs)")
    case Nil
    with Cons show ?thesis by simp
  next
    case (Cons q qs)
    with Cons.prems have m: "m = take (length (c # cs) - length (snd q)) (c # cs)"
      by simp
    from Cons matches_shorter [of q ic r "(prev, c # cs)"]
    have "length (snd q) + min_len r \<le> length (c # cs)" by simp
    with m show ?thesis by simp
  qed
qed

lemma year_match_nonempty: "search year_pattern s = Some m \<Longrightarrow> m \<noteq> []"
  using search_from_length [of "fst year_pattern" "snd year_pattern" None s m]
  by (auto simp: search_def year_pattern_def lit_def)

lemma dimensions_match_nonempty: "search dimensions_pattern s = Some m \<Longrightarrow> m \<noteq> []"
  using search_from_length [of "fst dimensions_pattern" "snd dimensions_pattern" None s m]
  by (auto simp: search_def dimensions_pattern_def number_def times_sign_def lit_def)

lemma price_match_nonempty: "search price_pattern s = Some m \<Longrightarrow> m \<noteq> []"
  using search_from_length [of "fst price_pattern" "snd price_pattern" None s m]
  by (auto simp: search_def price_pattern_def amount_def lit_def)

section \<open>Assignments and the record\<close>

lemma field_value_store:
  "field_value g (store f v a) = (if g = f then v else field_value g a)"
  by (cases f; cases g) simp_all

lemma field_value_confidence [simp]:
  "field_value f (a\<lparr>confidence_score := x\<rparr>) = field_value f a"
  by (cases f) simp_all

lemma has_price_iff: "has_price a = (field_value Price a \<noteq> [])"
  by (simp add: has_price_def split: option.splits)

lemma agrees_assign:
  assumes "agrees s" "field_value f (fst s) = []" "v \<noteq> []"
  shows "agrees (assign f v s)"
proof -
  from assms(1,2) have fresh: "f \<notin> fst ` set (snd s)"
    by (force simp: agrees_def)
  with assms(1) have "distinct (map fst (snd (assign f v s)))"
    by (simp add: assign_def agrees_def)
  moreover have "v' \<noteq> [] \<and> field_value g (fst (assign f v s)) = v'"
    if "(g, v') \<in> set (snd (assign f v s))" for g v'
  proof (cases "(g, v') \<in> set (snd s)")
    case True
    with fresh have "g \<noteq> f" by force
    with True assms(1) show ?thesis
      by (simp add: assign_def agrees_def field_value_store)
  next
    case False
    with that have "g = f" "v' = v" by (simp_all add: assign_def)
    with assms(3) show ?thesis by (simp add: assign_def field_value_store)
  qed
  moreover have "g \<in> fst ` set (snd (assign f v s))"
    if "field_value g (fst (assign f v s)) \<noteq> []" for g
  proof (cases "g = f")
    case True
    then show ?thesis by (simp add: assign_def)
  next
    case False
    with that assms(1) show ?thesis
      by (simp add: assign_def agrees_def field_value_store)
  qed
  ultimately show ?thesis unfolding agrees_def by blast
qed

lemma extends_refl: "extends s s"
  by (simp add: extends_def)

lemma extends_trans: "extends s t \<Longrightarrow> extends t u \<Longrightarrow> extends s u"
  by (auto simp: extends_def)

lemma extends_assign:
  "field_value f (fst s) = [] \<Longrightarrow> extends s (assign f v s)"
  by (auto simp: extends_def assign_def field_value_store)

lemma agrees_set_confidence: "agrees (set_confidence s) = agrees s"
  by (simp add: agrees_def set_confidence_def)

lemma extends_set_confidence: "extends s (set_confidence s)"
  by (simp add: extends_def set_confidence_def)

text \<open>Every step keeps the agreement and only extends the state.\<close>

lemma extract_year_step:
  "agrees s \<Longrightarrow> agrees (extract_year l s) \<and> extends s (extract_year l s)"
proof -
  assume a: "agrees s"
  show ?thesis
  proof (cases "year (fst s) = []")
    case False
    with a show ?thesis by (simp add: extract_year_def extends_refl)
  next
    case True
    show ?thesis
    proof (cases "search year_pattern l")
      case None
      with a True show ?thesis by (simp add: extract_year_def extends_refl)
    next
      case (Some m)
      then have "m \<noteq> []" by (rule year_match_nonempty)
      with a True Some show ?thesis
        by (simp add: extract_year_def agrees_assign extends_assign)
    qed
  qed
qed

lemma extract_dimensions_step:
  "agrees s \<Longrightarrow> agrees (extract_dimensions l s) \<and> extends s (extract_dimensions l s)"
proof -
  assume a: "agrees s"
  show ?thesis
  proof (cases "dimensions (fst s) = []")
    case False
    with a show ?thesis by (simp add: extract_dimensions_def extends_refl)
  next
    case True
    show ?thesis
    proof (cases "search dimensions_pattern l")
      case None
      with a True show ?thesis by (simp add: extract_dimensions_def extends_refl)
    next
      case (Some m)
      then have "m \<noteq> []" by (rule dimensions_match_nonempty)
      with a True Some show ?thesis
        by (simp add: extract_dimensions_def agrees_assign extends_assign)
    qed
  qed
qed

lemma extract_price_step:
  "agrees s \<Longrightarrow> agrees (extract_price l s) \<and> extends s (extract_price l s)"
proof -
  assume a: "agrees s"
  show ?thesis
  proof (cases "has_price (fst s)")
    case True
    with a show ?thesis by (simp add: extract_price_def extends_refl)
  next
    case False
    then have e: "field_value Price (fst s) = []" by (simp add: has_price_iff)
    show ?thesis
    proof (cases "search price_pattern l")
      case None
      with a False show ?thesis by (simp add: extract_price_def extends_refl)
    next
      case (Some m)
      then have "m \<noteq> []" by (rule price_match_nonempty)
      with a False Some e show ?thesis
        by (simp add: extract_price_def agrees_assign extends_assign)
    qed
  qed
qed

lemma extract_three_step:
  assumes "agrees s"
  shows "agrees (extract_price l (extract_dimensions l (extract_year l s)))"
    and "extends s (extract_price l (extract_dimensions l (extract_year l s)))"
proof -
  from extract_year_step [OF assms, of l]
  have 1: "agrees (extract_year l s)" "extends s (extract_year l s)" by simp_all
  from extract_dimensions_step [OF 1(1), of l]
  have 2: "agrees (extract_dimensions l (extract_year l s))"
    "extends (extract_year l s) (extract_dimensions l (extract_year l s))" by simp_all
  from extract_price_step [OF 2(1), of l]
  have 3: "agrees (extract_price l (extract_dimensions l (extract_year l s)))"
    "extends (extract_dimensions l (extract_year l s))
       (extract_price l (extract_dimensions l (extract_year l s)))" by simp_all
  show "agrees (extract_price l (extract_dimensions l (extract_year l s)))" by (rule 3(1))
  show "extends s (extract_price l (extract_dimensions l (extract_year l s)))"
    using 1(2) 2(2) 3(2) by (blast intro: extends_trans)
qed

lemma medium_step:
  assumes "agrees s3" "length l > 5"
  shows "agrees (if medium (fst s3) = [] \<and> c then assign Medium l s3 else s3)
    \<and> extends s3 (if medium (fst s3) = [] \<and> c then assign Medium l s3 else s3)"
proof (cases "medium (fst s3) = [] \<and> c")
  case True
  moreover from assms(2) have "l \<noteq> []" by auto
  ultimately show ?thesis using assms(1)
    by (simp add: agrees_assign extends_assign)
next
  case False
  with assms(1) show ?thesis by (auto simp: extends_refl)
qed

lemma inline_part_step:
  assumes "agrees s"
  shows "agrees (inline_part part s) \<and> extends s (inline_part part s)"
proof -
  let ?s3 = "extract_price part (extract_dimensions part (extract_year part s))"
  note 3 = extract_three_step [OF assms, of part]
  show ?thesis
  proof (cases "length part > 5")
    case False
    then have "inline_part part s = ?s3" by (simp add: inline_part_def Let_def)
    with 3 show ?thesis by simp
  next
    case True
    have "inline_part part s =
        (if medium (fst ?s3) = [] \<and> (\<not> is_likely_metadata part \<and> no_pattern part)
         then assign Medium part ?s3 else ?s3)"
      using True by (simp add: inline_part_def Let_def)
    with medium_step [OF 3(1) True, of "\<not> is_likely_metadata part \<and> no_pattern part"] 3(2)
    show ?thesis by (auto intro: extends_trans)
  qed
qed

lemma linebreak_line_step:
  assumes "agrees s"
  shows "agrees (linebreak_line line0 s) \<and> extends s (linebreak_line line0 s)"
proof (cases "strip line0 = []")
  case True
  with assms show ?thesis by (simp add: linebreak_line_def extends_refl)
next
  case False
  let ?l = "strip line0"
  let ?s3 = "extract_price ?l (extract_dimensions ?l (extract_year ?l s))"
  note 3 = extract_three_step [OF assms, of ?l]
  show ?thesis
  proof (cases "length ?l > 5")
    case f: False
    with False have "linebreak_line line0 s = ?s3" by (simp add: linebreak_line_def Let_def)
    with 3 show ?thesis by simp
  next
    case True
    have "linebreak_line line0 s =
        (if medium (fst ?s3) = [] \<and> (\<not> is_likely_metadata ?l \<and> no_pattern ?l
              \<and> ?l \<noteq> artist (fst ?s3) \<and> ?l \<noteq> title (fst ?s3))
         then assign Medium ?l ?s3 else ?s3)"
      using True False by (simp add: linebreak_line_def Let_def)
    with medium_step [OF 3(1) True,
        of "\<not> is_likely_metadata ?l \<and> no_pattern ?l \<and> ?l \<noteq> artist (fst ?s3) \<and> ?l \<noteq> title (fst ?s3)"] 3(2)
    show ?thesis by (auto intro: extends_trans)
  qed
qed

lemma fold_step:
  assumes "\<And>x s. agrees s \<Longrightarrow> agrees (f x s) \<and> extends s (f x s)"
  shows "agrees s \<Longrightarrow> agrees (fold f xs s) \<and> extends s (fold f xs s)"
proof (induction xs arbitrary: s)
  case Nil
  then show ?case by (simp add: extends_refl)
next
  case (Cons x xs)
  from assms [OF Cons.prems, of x] have 1: "agrees (f x s)" "extends s (f x s)" by simp_all
  from Cons.IH [OF 1(1)] 1(2) show ?case by (auto intro: extends_trans)
qed

lemma scan_head_agrees:
  "agrees s \<Longrightarrow> (\<not> found_artist \<longrightarrow> artist (fst s) = []) \<Longrightarrow> (\<not> found_title \<longrightarrow> title (fst s) = [])
   \<Longrightarrow> agrees (scan_head ls found_artist found_title s)"
proof (induction ls arbitrary: found_artist found_title s)
  case Nil
  then show ?case by simp
next
  case (Cons line rest)
  show ?case
  proof (cases "length line < 3 \<or> isdigit line")
    case True
    with Cons.IH [OF Cons.prems] show ?thesis by simp
  next
    case skip: False
    then have ne: "line \<noteq> []" by auto
    show ?thesis
    proof (cases "\<not> found_artist \<and> \<not> is_likely_metadata line")
      case True
      with Cons.prems ne have a: "agrees (assign Artist line s)" by (simp add: agrees_assign)
      have t: "\<not> found_title \<longrightarrow> title (fst (assign Artist line s)) = []"
        using Cons.prems(3) by (simp add: assign_def)
      from Cons.IH [OF a _ t, of True] skip True show ?thesis by simp
    next
      case na: False
      show ?thesis
      proof (cases "found_artist \<and> \<not> found_title \<and> \<not> is_likely_metadata line")
        case True
        with Cons.prems ne have a: "agrees (assign Title line s)" by (simp add: agrees_assign)
        from Cons.IH [OF a, of found_artist True] skip na True show ?thesis by simp
      next
        case nt: False
        show ?thesis
        proof (cases "found_artist \<and> found_title")
          case True
          with skip na nt Cons.prems(1) show ?thesis by simp
        next
          case False
          have "scan_head (line # rest) found_artist found_title s
              = scan_head rest found_artist found_title s"
            using skip na nt False by auto
          with Cons.IH [OF Cons.prems] show ?thesis by simp
        qed
      qed
    qed
  qed
qed

lemma agrees_new: "agrees (new_Artwork n, [])"
proof -
  have empty: "field_value f (new_Artwork n) = []" for f
    by (cases f) (simp_all add: new_Artwork_def)
  show ?thesis unfolding agrees_def by (simp add: empty)
qed

lemma linebreak_agrees:
  "agrees (snd (parse_artwork_linebreak_format text (new_Artwork n, [])))"
proof -
  let ?lines = "stripped_parts text [CHR 0x0A]"
  have "agrees (scan_head (take 5 ?lines) False False (new_Artwork n, []))"
    by (rule scan_head_agrees [OF agrees_new]) (simp_all add: new_Artwork_def)
  then have "agrees (fold linebreak_line ?lines (scan_head (take 5 ?lines) False False (new_Artwork n, [])))"
    using fold_step [of linebreak_line, OF linebreak_line_step] by blast
  then show ?thesis
    by (simp add: parse_artwork_linebreak_format_def Let_def agrees_set_confidence)
qed

lemma stripped_parts_nonempty: "p \<in> set (stripped_parts text sep) \<Longrightarrow> p \<noteq> []"
  by (auto simp: stripped_parts_def)

lemma guarded_assign_step:
  assumes "agrees s" "v \<noteq> []"
  shows "agrees (if field_value f (fst s) = [] then assign f v s else s)
    \<and> extends s (if field_value f (fst s) = [] then assign f v s else s)"
  using assms by (simp add: agrees_assign extends_assign extends_refl)

lemma inline_attempt_step:
  assumes "agrees s"
  shows "agrees (snd (inline_attempt sep text s)) \<and> extends s (snd (inline_attempt sep text s))"
proof (cases "length (stripped_parts text sep) \<ge> 3")
  case False
  with assms show ?thesis by (simp add: inline_attempt_def Let_def extends_refl)
next
  case True
  let ?parts = "stripped_parts text sep"
  let ?s1 = "if artist (fst s) = [] then assign Artist (?parts ! 0) s else s"
  let ?s2 = "if title (fst ?s1) = [] then assign Title (?parts ! 1) ?s1 else ?s1"
  let ?s3 = "fold inline_part (drop 2 ?parts) ?s2"
  from True have "?parts ! 0 \<in> set ?parts" "?parts ! 1 \<in> set ?parts"
    by (auto intro: nth_mem)
  then have ne: "?parts ! 0 \<noteq> []" "?parts ! 1 \<noteq> []"
    by (blast dest: stripped_parts_nonempty)+
  from guarded_assign_step [OF assms ne(1), of Artist]
  have 1: "agrees ?s1" "extends s ?s1" by simp_all
  from guarded_assign_step [OF 1(1) ne(2), of Title]
  have 2: "agrees ?s2" "extends ?s1 ?s2" by simp_all
  from fold_step [of inline_part, OF inline_part_step 2(1)]
  have 3: "agrees ?s3" "extends ?s2 ?s3" by simp_all
  have r: "snd (inline_attempt sep text s) = set_confidence ?s3"
    using True by (simp add: inline_attempt_def Let_def)
  from 3(1) have "agrees (set_confidence ?s3)" by (simp add: agrees_set_confidence)
  moreover from 1(2) 2(2) 3(2) extends_set_confidence [of ?s3]
  have "extends s (set_confidence ?s3)" by (blast intro: extends_trans)
  ultimately show ?thesis by (simp only: r)
qed

lemma inline_loop_step:
  "agrees s \<Longrightarrow> agrees (snd (inline_loop seps text s)) \<and> extends s (snd (inline_loop seps text s))"
proof (induction seps arbitrary: s)
  case Nil
  then show ?case by (simp add: extends_refl)
next
  case (Cons sep seps)
  obtain ok s' where att: "inline_attempt sep text s = (ok, s')" by (cases "inline_attempt sep text s")
  from inline_attempt_step [OF Cons.prems, of sep "text"] att
  have 1: "agrees s'" "extends s s'" by simp_all
  show ?case
  proof (cases ok)
    case True
    with att 1 show ?thesis by simp
  next
    case False
    with att have "inline_loop (sep # seps) text s = inline_loop seps text s'" by simp
    with Cons.IH [OF 1(1)] 1(2) show ?thesis by (auto intro: extends_trans)
  qed
qed

section \<open>The confidence score\<close>

lemma fields_found_le: "fields_found a \<le> 5"
proof -
  have "length (filter (\<lambda>f. f \<noteq> []) [title a, artist a, year a, dimensions a, medium a])
      \<le> length [title a, artist a, year a, dimensions a, medium a]"
    by (rule length_filter_le)
  then show ?thesis by (simp add: fields_found_def)
qed

lemma threshold_iff: "(real n / 5 > 0.6) = (4 \<le> n)"
  by (simp add: field_simps) linarith

lemma scored_set_confidence: "scored (fst (set_confidence s))"
  by (simp add: scored_def set_confidence_def fields_found_def)

lemma linebreak_scored: "scored (fst (snd (parse_artwork_linebreak_format text s)))"
  by (simp add: parse_artwork_linebreak_format_def Let_def scored_set_confidence)

lemma linebreak_ok:
  "fst (parse_artwork_linebreak_format text s)
   = (confidence_score (fst (snd (parse_artwork_linebreak_format text s))) > 0.6)"
  by (simp add: parse_artwork_linebreak_format_def Let_def)

lemma inline_attempt_ok:
  assumes "inline_attempt sep text s = (True, s')"
  shows "scored (fst s') \<and> confidence_score (fst s') > 0.6"
proof (cases "length (stripped_parts text sep) \<ge> 3")
  case False
  with assms show ?thesis by (simp add: inline_attempt_def Let_def)
next
  case True
  with assms show ?thesis
    by (auto simp: inline_attempt_def Let_def scored_set_confidence)
qed

lemma inline_loop_ok:
  "inline_loop seps text s = (True, s') \<Longrightarrow> scored (fst s') \<and> confidence_score (fst s') > 0.6"
proof (induction seps arbitrary: s)
  case Nil
  then show ?case by simp
next
  case (Cons sep seps)
  obtain ok s1 where att: "inline_attempt sep text s = (ok, s1)"
    by (cases "inline_attempt sep text s")
  show ?case
  proof (cases ok)
    case True
    with att Cons.prems have "s' = s1" by simp
    with att True inline_attempt_ok [of sep "text" s s1] show ?thesis by simp
  next
    case False
    with att Cons.prems have "inline_loop seps text s1 = (True, s')" by simp
    then show ?thesis by (rule Cons.IH)
  qed
qed

lemma with_image_fields [simp]:
  "fields_found (with_image save stem page_num n img a) = fields_found a"
  "confidence_score (with_image save stem page_num n img a) = confidence_score a"
  "field_value f (with_image save stem page_num n img a) = field_value f a"
  by (cases f; simp add: with_image_def fields_found_def split: option.splits)+

text \<open>What a call of the field extractor returns, by cases on the two strategies.\<close>

lemma extract_cases:
  "fst (parse_artwork_linebreak_format text (new_Artwork (page_num + 1), [])) \<Longrightarrow>
     extract_artwork_info_from_text save stem n text page_num img =
       \<lparr>returned = Some (with_image save stem page_num n img
           (fst (snd (parse_artwork_linebreak_format text (new_Artwork (page_num + 1), []))))),
        invoked = [Linebreak],
        assigned = snd (snd (parse_artwork_linebreak_format text (new_Artwork (page_num + 1), [])))\<rparr>"
  "\<not> fst (parse_artwork_linebreak_format text (new_Artwork (page_num + 1), [])) \<Longrightarrow>
   fst (parse_artwork_inline_format text
          (snd (parse_artwork_linebreak_format text (new_Artwork (page_num + 1), [])))) \<Longrightarrow>
     extract_artwork_info_from_text save stem n text page_num img =
       \<lparr>returned = Some (with_image save stem page_num n img
           (fst (snd (parse_artwork_inline_format text
              (snd (parse_artwork_linebreak_format text (new_Artwork (page_num + 1), []))))))),
        invoked = [Linebreak, Inline],
        assigned = snd (snd (parse_artwork_inline_format text
              (snd (parse_artwork_linebreak_format text (new_Artwork (page_num + 1), [])))))\<rparr>"
  "\<not> fst (parse_artwork_linebreak_format text (new_Artwork (page_num + 1), [])) \<Longrightarrow>
   \<not> fst (parse_artwork_inline_format text
          (snd (parse_artwork_linebreak_format text (new_Artwork (page_num + 1), [])))) \<Longrightarrow>
     extract_artwork_info_from_text save stem n text page_num img =
       \<lparr>returned = None, invoked = [Linebreak, Inline],
        assigned = snd (snd (parse_artwork_inline_format text
              (snd (parse_artwork_linebreak_format text (new_Artwork (page_num + 1), [])))))\<rparr>"
  unfolding extract_artwork_info_from_text_def
  by (simp_all add: Let_def split_beta)

lemma returned_scored:
  assumes "returned (extract_artwork_info_from_text save stem n text page_num img) = Some a"
  shows "scored a \<and> confidence_score a > 0.6"
proof -
  let ?ra = "parse_artwork_linebreak_format text (new_Artwork (page_num + 1), [])"
  let ?rb = "parse_artwork_inline_format text (snd ?ra)"
  show ?thesis
  proof (cases "fst ?ra")
    case True
    from extract_cases(1) [OF True] assms
    have a: "a = with_image save stem page_num n img (fst (snd ?ra))" by simp
    from linebreak_scored [of "text" "(new_Artwork (page_num + 1), [])"] True
      linebreak_ok [of "text" "(new_Artwork (page_num + 1), [])"]
    show ?thesis by (simp add: a scored_def)
  next
    case False
    show ?thesis
    proof (cases "fst ?rb")
      case True
      from extract_cases(2) [OF False True] assms
      have a: "a = with_image save stem page_num n img (fst (snd ?rb))" by simp
      from True have "inline_loop separators text (snd ?ra) = (True, snd ?rb)"
        by (simp add: parse_artwork_inline_format_def prod_eq_iff)
      from inline_loop_ok [OF this] show ?thesis by (simp add: a scored_def)
    next
      case nb: False
      from extract_cases(3) [OF False nb] assms show ?thesis by simp
    qed
  qed
qed

section \<open>Sample runs\<close>

lemma run_linebreak_text_linebreak:
  "parse_artwork_linebreak_format text_linebreak (new_Artwork 1, []) =
    (True,
     \<lparr>title = ''Dusk'', artist = ''Ann Lee'', year = ''1999'', dimensions = ''2x3 cm'',
        medium = [], price = None, image_path = None, image_data = None, page_number = 1,
        confidence_score = 4 / 5\<rparr>,
     [(Artist, ''Ann Lee''), (Title, ''Dusk''), (Year, ''1999''), (Dimensions, ''2x3 cm'')])"
  by code_simp

lemma run_linebreak_text_inline:
  "parse_artwork_linebreak_format text_inline (new_Artwork 1, []) =
    (False,
     \<lparr>title = [], artist = ''a,b,c|1999|oil on wood'', year = ''1999'', dimensions = [],
        medium = [], price = None, image_path = None, image_data = None, page_number = 1,
        confidence_score = 2 / 5\<rparr>,
     [(Artist, ''a,b,c|1999|oil on wood''), (Year, ''1999'')])"
  by code_simp

lemma run_comma_text_inline:
  "inline_attempt '','' text_inline
     (\<lparr>title = [], artist = ''a,b,c|1999|oil on wood'', year = ''1999'', dimensions = [],
        medium = [], price = None, image_path = None, image_data = None, page_number = 1,
        confidence_score = 2 / 5\<rparr>,
      [(Artist, ''a,b,c|1999|oil on wood''), (Year, ''1999'')]) =
    (False,
     \<lparr>title = ''b'', artist = ''a,b,c|1999|oil on wood'', year = ''1999'', dimensions = [],
        medium = [], price = None, image_path = None, image_data = None, page_number = 1,
        confidence_score = 3 / 5\<rparr>,
     [(Artist, ''a,b,c|1999|oil on wood''), (Year, ''1999''), (Title, ''b'')])"
  by code_simp

lemma run_bar_text_inline:
  "inline_attempt ''|'' text_inline
     (\<lparr>title = ''b'', artist = ''a,b,c|1999|oil on wood'', year = ''1999'', dimensions = [],
        medium = [], price = None, image_path = None, image_data = None, page_number = 1,
        confidence_score = 3 / 5\<rparr>,
     [(Artist, ''a,b,c|1999|oil on wood''), (Year, ''1999''), (Title, ''b'')]) =
    (True,
     \<lparr>title = ''b'', artist = ''a,b,c|1999|oil on wood'', year = ''1999'', dimensions = [],
        medium = ''oil on wood'', price = None, image_path = None, image_data = None,
        page_number = 1, confidence_score = 4 / 5\<rparr>,
     [(Artist, ''a,b,c|1999|oil on wood''), (Year, ''1999''), (Title, ''b''),
      (Medium, ''oil on wood'')])"
  by code_simp

lemma run_inline_text_inline:
  "parse_artwork_inline_format text_inline
     (\<lparr>title = [], artist = ''a,b,c|1999|oil on wood'', year = ''1999'', dimensions = [],
        medium = [], price = None, image_path = None, image_data = None, page_number = 1,
        confidence_score = 2 / 5\<rparr>,
      [(Artist, ''a,b,c|1999|oil on wood''), (Year, ''1999'')]) =
    (True,
     \<lparr>title = ''b'', artist = ''a,b,c|1999|oil on wood'', year = ''1999'', dimensions = [],
        medium = ''oil on wood'', price = None, image_path = None, image_data = None,
        page_number = 1, confidence_score = 4 / 5\<rparr>,
     [(Artist, ''a,b,c|1999|oil on wood''), (Year, ''1999''), (Title, ''b''),
      (Medium, ''oil on wood'')])"
  by (simp add: parse_artwork_inline_format_def separators_def run_comma_text_inline
      run_bar_text_inline del: One_nat_def)

lemma run_linebreak_text_plain:
  "parse_artwork_linebreak_format text_plain (new_Artwork 1, []) =
    (False,
     \<lparr>title = [], artist = ''abc'', year = [], dimensions = [],
        medium = [], price = None, image_path = None, image_data = None, page_number = 1,
        confidence_score = 1 / 5\<rparr>,
     [(Artist, ''abc'')])"
  by code_simp

lemma run_inline_text_plain:
  "parse_artwork_inline_format text_plain
     (\<lparr>title = [], artist = ''abc'', year = [], dimensions = [],
        medium = [], price = None, image_path = None, image_data = None, page_number = 1,
        confidence_score = 1 / 5\<rparr>,
     [(Artist, ''abc'')]) =
    (False,
     \<lparr>title = [], artist = ''abc'', year = [], dimensions = [],
        medium = [], price = None, image_path = None, image_data = None, page_number = 1,
        confidence_score = 1 / 5\<rparr>,
     [(Artist, ''abc'')])"
  by code_simp

section \<open>The image selector\<close>

lemma collect_images_filter:
  "collect_images d xs = filter large (raw_images d xs)"
  by (induction xs) (auto simp: large_def Let_def split: option.splits)

text \<open>
  C4.  The list \<open>extract_images\<close> returns holds exactly the images of the page that are
  more than 100 pixels wide and more than 100 pixels high; it is in descending order of
  width times height; images of equal area keep the order in which the page lists them;
  no image with a width or height of 100 or less is in it.
\<close>

theorem extract_images_selects_and_orders:
  "mset (extract_images d p) = mset (filter large (raw_images d (get_images p)))
   \<and> sorted_wrt (\<lambda>a b. area a \<ge> area b) (extract_images d p)
   \<and> (\<forall>k. filter (\<lambda>x. area x = k) (extract_images d p)
          = filter (\<lambda>x. area x = k) (filter large (raw_images d (get_images p))))
   \<and> (\<forall>x \<in> set (extract_images d p). width x > 100 \<and> height x > 100)"
proof -
  let ?key = "\<lambda>x. - (width x * height x)"
  let ?big = "filter large (raw_images d (get_images p))"
  have out: "extract_images d p = sort_key ?key ?big"
    by (simp add: extract_images_def collect_images_filter)
  have "sorted (map ?key (sort_key ?key ?big))"
    by (rule sorted_sort_key)
  then have desc: "sorted_wrt (\<lambda>a b. area a \<ge> area b) (extract_images d p)"
    by (simp add: out sorted_map area_def)
  have stable: "filter (\<lambda>x. area x = k) (extract_images d p) = filter (\<lambda>x. area x = k) ?big" for k
  proof -
    have "filter (\<lambda>x. ?key x = - k) (sort_key ?key ?big) = filter (\<lambda>x. ?key x = - k) ?big"
      by (rule sort_key_stable)
    then show ?thesis by (simp add: out area_def)
  qed
  have big: "\<forall>x \<in> set (extract_images d p). width x > 100 \<and> height x > 100"
    by (auto simp: out large_def)
  show ?thesis using desc stable big by (simp add: out)
qed

theorem extract_images_selects_and_orders_witness:
  "map xref (extract_images demo_selector_doc demo_selector_page) = [3, 1, 5]
   \<and> map xref (filter large (raw_images demo_selector_doc (get_images demo_selector_page))) = [1, 3, 5]
   \<and> mset (extract_images demo_selector_doc demo_selector_page)
       = mset (filter large (raw_images demo_selector_doc (get_images demo_selector_page)))
   \<and> sorted_wrt (\<lambda>a b. area a \<ge> area b) (extract_images demo_selector_doc demo_selector_page)"
proof -
  have "map xref (extract_images demo_selector_doc demo_selector_page) = [3, 1, 5]"
    by (simp add: extract_images_def demo_selector_doc_def demo_selector_page_def demo_images_def
        image_of_def)
  moreover have "map xref (filter large (raw_images demo_selector_doc (get_images demo_selector_page)))
      = [1, 3, 5]"
    by (simp add: demo_selector_doc_def demo_selector_page_def demo_images_def image_of_def large_def)
  ultimately show ?thesis
    using extract_images_selects_and_orders [of demo_selector_doc demo_selector_page] by simp
qed

section \<open>Records returned by a document\<close>

lemma process_sections_returned:
  assumes "\<And>stem n t k img a.
      returned (extract_artwork_info_from_text save stem n t k img) = Some a \<Longrightarrow> P a"
  shows "a \<in> set (fst (process_sections save self page_num sections)) \<Longrightarrow> P a"
proof (induction sections arbitrary: a)
  case Nil
  then show ?case by simp
next
  case (Cons sec sections)
  obtain section_text img where sec: "sec = (section_text, img)" by (cases sec)
  let ?e = "extract_artwork_info_from_text save (pdf_path self) (length (artworks self))
      section_text page_num img"
  from Cons.prems sec consider "returned ?e = Some a"
    | "a \<in> set (fst (process_sections save self page_num sections))"
    by (auto simp: Let_def split_beta split: option.splits)
  then show ?case
  proof cases
    case 1
    then show ?thesis by (rule assms)
  next
    case 2
    then show ?thesis by (rule Cons.IH)
  qed
qed

lemma process_page_returned:
  assumes "\<And>stem n t k img a.
      returned (extract_artwork_info_from_text save stem n t k img) = Some a \<Longrightarrow> P a"
  shows "a \<in> set (fst (process_page save self p page_num)) \<Longrightarrow> P a"
proof -
  assume a: "a \<in> set (fst (process_page save self p page_num))"
  let ?images = "extract_images (doc self) p"
  let ?text = "get_text p"
  show ?thesis
  proof (cases "?images = [] \<or> (length ?text > 2000 \<and> length ?images < 2)")
    case True
    with a show ?thesis by (simp add: process_page_def Let_def)
  next
    case skip: False
    show ?thesis
    proof (cases "length ?images = 1 \<or> (length ?images > 0 \<and> is_main_artwork_page ?text)")
      case True
      let ?e = "extract_artwork_info_from_text save (pdf_path self) (length (artworks self))
        ?text page_num (case ?images of [] \<Rightarrow> None | i # _ \<Rightarrow> Some i)"
      from a skip True have "returned ?e = Some a"
        by (simp add: process_page_def Let_def extract_artwork_info_def split: option.splits)
      then show ?thesis by (rule assms)
    next
      case False
      with a skip
      have "a \<in> set (fst (process_sections save self page_num (split_page_into_sections p ?images)))"
        by (simp add: process_page_def Let_def split: if_splits)
      with process_sections_returned [of save P a self page_num] assms show ?thesis
        by blast
    qed
  qed
qed

lemma extract_pages_returned:
  assumes "\<And>stem n t k img a.
      returned (extract_artwork_info_from_text save stem n t k img) = Some a \<Longrightarrow> P a"
  shows "\<forall>a \<in> set (artworks self). P a \<Longrightarrow>
         \<forall>a \<in> set (artworks (fst (extract_pages save self ps page_num))). P a"
proof (induction ps arbitrary: self page_num)
  case Nil
  then show ?case by simp
next
  case (Cons p ps)
  let ?found = "fst (process_page save self p page_num)"
  let ?self = "self\<lparr>artworks := artworks self @ ?found\<rparr>"
  have "\<forall>a \<in> set (artworks ?self). P a"
    using Cons.prems process_page_returned [of save P _ self p page_num, OF assms] by auto
  from Cons.IH [OF this, of "page_num + 1"] show ?case
    by (simp add: Let_def split_beta)
qed

lemma extract_all_returned:
  assumes "\<And>stem n t k img a.
      returned (extract_artwork_info_from_text save stem n t k img) = Some a \<Longrightarrow> P a"
    and "artworks self = []"
  shows "\<forall>a \<in> set (extract_all save self). P a"
proof -
  have "\<forall>a \<in> set (artworks self). P a" by (simp add: assms(2))
  with extract_pages_returned [of save P self "pages (doc self)" 0] assms(1)
  show ?thesis unfolding extract_all_def by blast
qed

text \<open>
  C1.  Every record that \<open>extract_all\<close> returns, and every record on which one of the
  two strategies succeeds, has a confidence score equal to the number of non-empty fields
  among title, artist, year, dimensions and medium, divided by 5.
\<close>

theorem confidence_score_is_fields_found_over_5:
  "(fst (parse_artwork_linebreak_format text_a s_a) \<longrightarrow>
      scored (fst (snd (parse_artwork_linebreak_format text_a s_a))))
   \<and> (fst (parse_artwork_inline_format text_b s_b) \<longrightarrow>
      scored (fst (snd (parse_artwork_inline_format text_b s_b))))
   \<and> (artworks self = [] \<longrightarrow> (\<forall>r \<in> set (extract_all save self). scored r))"
proof -
  have "scored (fst (snd (parse_artwork_inline_format text_b s_b)))"
    if "fst (parse_artwork_inline_format text_b s_b)"
  proof -
    from that have "inline_loop separators text_b s_b
        = (True, snd (parse_artwork_inline_format text_b s_b))"
      by (simp add: parse_artwork_inline_format_def prod_eq_iff)
    from inline_loop_ok [OF this] show ?thesis by simp
  qed
  moreover have "\<forall>r \<in> set (extract_all save self). scored r" if "artworks self = []"
    using extract_all_returned [of save scored self] returned_scored that by blast
  ultimately show ?thesis by (simp add: linebreak_scored)
qed

lemma demo_extract_all:
  "extract_all demo_save demo_extractor =
     [\<lparr>title = ''Dusk'', artist = ''Ann Lee'', year = ''1999'', dimensions = ''2x3 cm'',
        medium = [], price = None, image_path = Some ''catalog.png'', image_data = Some ''png'',
        page_number = 1, confidence_score = 4 / 5\<rparr>]"
proof -
  have images: "extract_images demo_doc \<lparr>get_text = text_linebreak, get_images = [3]\<rparr>
      = [\<lparr>xref = 3, width = 300, height = 300, image_bytes = [], extension = ''png''\<rparr>]"
    by (simp add: extract_images_def demo_doc_def demo_images_def image_of_def)
  have e: "extract_artwork_info_from_text demo_save ''catalog'' 0 text_linebreak 0
      (Some \<lparr>xref = 3, width = 300, height = 300, image_bytes = [], extension = ''png''\<rparr>)
    = \<lparr>returned = Some \<lparr>title = ''Dusk'', artist = ''Ann Lee'', year = ''1999'', dimensions = ''2x3 cm'',
        medium = [], price = None, image_path = Some ''catalog.png'', image_data = Some ''png'',
        page_number = 1, confidence_score = 4 / 5\<rparr>,
       invoked = [Linebreak],
       assigned = [(Artist, ''Ann Lee''), (Title, ''Dusk''), (Year, ''1999''), (Dimensions, ''2x3 cm'')]\<rparr>"
    using extract_cases(1) [of text_linebreak 0 demo_save "''catalog''" 0]
    by (simp add: run_linebreak_text_linebreak with_image_def SAVE_IMAGES_def demo_save_def
        del: One_nat_def)
  have pg: "pages demo_doc = [\<lparr>get_text = text_linebreak, get_images = [3]\<rparr>]"
    by (simp add: demo_doc_def)
  have len: "length text_linebreak = 24"
    by (simp add: text_linebreak_def)
  show ?thesis
    by (simp add: extract_all_def demo_extractor_def process_page_def images e pg len
        extract_artwork_info_def Let_def del: One_nat_def)
qed

lemma demo_extractor_fresh: "artworks demo_extractor = []"
  by (simp add: demo_extractor_def)

theorem confidence_score_is_fields_found_over_5_witness:
  "scored (fst (snd (parse_artwork_linebreak_format text_linebreak (new_Artwork 1, []))))
   \<and> scored \<lparr>title = ''b'', artist = ''a,b,c|1999|oil on wood'', year = ''1999'', dimensions = [],
        medium = ''oil on wood'', price = None, image_path = None, image_data = None,
        page_number = 1, confidence_score = 4 / 5\<rparr>
   \<and> scored \<lparr>title = ''Dusk'', artist = ''Ann Lee'', year = ''1999'', dimensions = ''2x3 cm'',
        medium = [], price = None, image_path = Some ''catalog.png'', image_data = Some ''png'',
        page_number = 1, confidence_score = 4 / 5\<rparr>"
  using confidence_score_is_fields_found_over_5 [of text_linebreak "(new_Artwork 1, [])" text_inline
      "(\<lparr>title = [], artist = ''a,b,c|1999|oil on wood'', year = ''1999'', dimensions = [],
        medium = [], price = None, image_path = None, image_data = None, page_number = 1,
        confidence_score = 2 / 5\<rparr>,
      [(Artist, ''a,b,c|1999|oil on wood''), (Year, ''1999'')])" demo_extractor demo_save]
    demo_extractor_fresh
  by (simp add: run_linebreak_text_linebreak run_inline_text_inline demo_extract_all
      del: One_nat_def)

section \<open>The field extractor\<close>

text \<open>
  C9.  Every record the field extractor returns has at least 4 of the 5 fields title,
  artist, year, dimensions and medium non-empty, and its confidence score is 0.8 or 1.0.
\<close>

theorem returned_record_has_four_fields:
  "returned (extract_artwork_info_from_text save stem n text page_num img) = Some a \<Longrightarrow>
   4 \<le> fields_found a \<and> fields_found a \<le> 5
   \<and> (confidence_score a = 0.8 \<or> confidence_score a = 1.0)"
proof -
  assume "returned (extract_artwork_info_from_text save stem n text page_num img) = Some a"
  from returned_scored [OF this]
  have s: "confidence_score a = real (fields_found a) / 5" and "real (fields_found a) / 5 > 0.6"
    by (simp_all add: scored_def)
  then have lo: "4 \<le> fields_found a" by (simp only: threshold_iff)
  with fields_found_le [of a] have "fields_found a = 4 \<or> fields_found a = 5" by linarith
  with s lo fields_found_le [of a] show ?thesis by auto
qed

lemma demo_extraction_inline:
  "extract_artwork_info_from_text demo_save ''catalog'' 0 text_inline 0 None =
     \<lparr>returned = Some \<lparr>title = ''b'', artist = ''a,b,c|1999|oil on wood'', year = ''1999'',
          dimensions = [], medium = ''oil on wood'', price = None, image_path = None,
          image_data = None, page_number = 1, confidence_score = 4 / 5\<rparr>,
      invoked = [Linebreak, Inline],
      assigned = [(Artist, ''a,b,c|1999|oil on wood''), (Year, ''1999''), (Title, ''b''),
        (Medium, ''oil on wood'')]\<rparr>"
  using extract_cases(2) [of text_inline 0 demo_save "''catalog''" 0 None]
  by (simp add: run_linebreak_text_inline run_inline_text_inline with_image_def
      del: One_nat_def)

lemma demo_extraction_linebreak:
  "extract_artwork_info_from_text demo_save ''catalog'' 0 text_linebreak 0 None =
     \<lparr>returned = Some \<lparr>title = ''Dusk'', artist = ''Ann Lee'', year = ''1999'',
          dimensions = ''2x3 cm'', medium = [], price = None, image_path = None,
          image_data = None, page_number = 1, confidence_score = 4 / 5\<rparr>,
      invoked = [Linebreak],
      assigned = [(Artist, ''Ann Lee''), (Title, ''Dusk''), (Year, ''1999''),
        (Dimensions, ''2x3 cm'')]\<rparr>"
  using extract_cases(1) [of text_linebreak 0 demo_save "''catalog''" 0 None]
  by (simp add: run_linebreak_text_linebreak with_image_def del: One_nat_def)

lemma demo_extraction_plain:
  "extract_artwork_info_from_text demo_save ''catalog'' 0 text_plain 0 None =
     \<lparr>returned = None, invoked = [Linebreak, Inline], assigned = [(Artist, ''abc'')]\<rparr>"
  using extract_cases(3) [of text_plain 0 demo_save "''catalog''" 0 None]
  by (simp add: run_linebreak_text_plain run_inline_text_plain del: One_nat_def)

theorem returned_record_has_four_fields_witness:
  "fields_found \<lparr>title = ''b'', artist = ''a,b,c|1999|oil on wood'', year = ''1999'',
          dimensions = [], medium = ''oil on wood'', price = None, image_path = None,
          image_data = None, page_number = 1, confidence_score = 4 / 5\<rparr> = 4
   \<and> returned (extract_artwork_info_from_text demo_save ''catalog'' 0 text_inline 0 None)
       = Some \<lparr>title = ''b'', artist = ''a,b,c|1999|oil on wood'', year = ''1999'',
          dimensions = [], medium = ''oil on wood'', price = None, image_path = None,
          image_data = None, page_number = 1, confidence_score = 4 / 5\<rparr>"
  using returned_record_has_four_fields [of demo_save "''catalog''" 0 text_inline 0 None
      "\<lparr>title = ''b'', artist = ''a,b,c|1999|oil on wood'', year = ''1999'',
          dimensions = [], medium = ''oil on wood'', price = None, image_path = None,
          image_data = None, page_number = 1, confidence_score = 4 / 5\<rparr>"]
  by (simp add: demo_extraction_inline fields_found_def del: One_nat_def)

lemma inline_attempt_failed:
  assumes "inline_attempt sep text s = (False, s')"
    and "\<not> confidence_score (fst s) > 0.6"
  shows "\<not> confidence_score (fst s') > 0.6"
proof (cases "length (stripped_parts text sep) \<ge> 3")
  case False
  with assms show ?thesis by (simp add: inline_attempt_def Let_def)
next
  case True
  with assms(1) show ?thesis by (auto simp: inline_attempt_def Let_def)
qed

lemma inline_loop_failed:
  "inline_loop seps text s = (False, s') \<Longrightarrow> \<not> confidence_score (fst s) > 0.6 \<Longrightarrow>
   \<not> confidence_score (fst s') > 0.6"
proof (induction seps arbitrary: s)
  case Nil
  then show ?case by simp
next
  case (Cons sep seps)
  obtain ok s1 where att: "inline_attempt sep text s = (ok, s1)"
    by (cases "inline_attempt sep text s")
  show ?case
  proof (cases ok)
    case True
    with att Cons.prems(1) show ?thesis by simp
  next
    case False
    with att Cons.prems(1) have l: "inline_loop seps text s1 = (False, s')" by simp
    from att False Cons.prems(2) have "\<not> confidence_score (fst s1) > 0.6"
      using inline_attempt_failed [of sep "text" s s1] by simp
    with l show ?thesis by (rule Cons.IH)
  qed
qed

lemma inline_ok:
  assumes "\<not> confidence_score (fst s) > 0.6"
  shows "fst (parse_artwork_inline_format text s)
    = (confidence_score (fst (snd (parse_artwork_inline_format text s))) > 0.6)"
proof (cases "fst (parse_artwork_inline_format text s)")
  case True
  then have "inline_loop separators text s = (True, snd (parse_artwork_inline_format text s))"
    by (simp add: parse_artwork_inline_format_def prod_eq_iff)
  from inline_loop_ok [OF this] True show ?thesis by simp
next
  case False
  then have "inline_loop separators text s = (False, snd (parse_artwork_inline_format text s))"
    by (simp add: parse_artwork_inline_format_def prod_eq_iff)
  from inline_loop_failed [OF this assms] False show ?thesis by simp
qed

text \<open>
  C2.  The field extractor calls Strategy A first.  Each strategy reports success
  exactly when the score it has computed is above 0.6.  When Strategy A succeeds the
  extractor returns A's record and Strategy B is not called; otherwise it calls
  Strategy B on the record as A left it, and returns B's record when B succeeds and
  nothing when B does not.  A record that is returned has a confidence score above 0.6.
\<close>

theorem extract_tries_linebreak_then_inline:
  "(let e = extract_artwork_info_from_text save stem n text page_num img;
        ra = parse_artwork_linebreak_format text (new_Artwork (page_num + 1), []);
        rb = parse_artwork_inline_format text (snd ra)
    in hd (invoked e) = Linebreak
       \<and> (fst ra = (confidence_score (fst (snd ra)) > 0.6))
       \<and> (fst ra \<longrightarrow> invoked e = [Linebreak]
            \<and> returned e = Some (with_image save stem page_num n img (fst (snd ra))))
       \<and> (\<not> fst ra \<longrightarrow> invoked e = [Linebreak, Inline]
            \<and> (fst rb = (confidence_score (fst (snd rb)) > 0.6))
            \<and> (fst rb \<longrightarrow> returned e = Some (with_image save stem page_num n img (fst (snd rb))))
            \<and> (\<not> fst rb \<longrightarrow> returned e = None))
       \<and> (\<forall>a. returned e = Some a \<longrightarrow> confidence_score a > 0.6))"
proof -
  let ?e = "extract_artwork_info_from_text save stem n text page_num img"
  let ?ra = "parse_artwork_linebreak_format text (new_Artwork (page_num + 1), [])"
  let ?rb = "parse_artwork_inline_format text (snd ?ra)"
  have first: "hd (invoked ?e) = Linebreak"
    using extract_cases [of "text" page_num save stem n img]
    by (cases "fst ?ra"; cases "fst ?rb") simp_all
  have a: "fst ?ra \<Longrightarrow> invoked ?e = [Linebreak]
      \<and> returned ?e = Some (with_image save stem page_num n img (fst (snd ?ra)))"
    using extract_cases(1) [of "text" page_num save stem n img] by simp
  have b: "\<not> fst ?ra \<Longrightarrow> invoked ?e = [Linebreak, Inline]
      \<and> (fst ?rb \<longrightarrow> returned ?e = Some (with_image save stem page_num n img (fst (snd ?rb))))
      \<and> (\<not> fst ?rb \<longrightarrow> returned ?e = None)"
    using extract_cases(2,3) [of "text" page_num save stem n img]
    by (cases "fst ?rb") simp_all
  have flag_a: "fst ?ra = (confidence_score (fst (snd ?ra)) > 0.6)"
    by (rule linebreak_ok)
  have flag_b: "\<not> fst ?ra \<Longrightarrow> fst ?rb = (confidence_score (fst (snd ?rb)) > 0.6)"
  proof -
    assume "\<not> fst ?ra"
    with flag_a have "\<not> confidence_score (fst (snd ?ra)) > 0.6" by simp
    then show ?thesis by (rule inline_ok)
  qed
  have c: "\<forall>a. returned ?e = Some a \<longrightarrow> confidence_score a > 0.6"
    using returned_scored [of save stem n "text" page_num img] by blast
  from first a b c flag_a flag_b
  show ?thesis unfolding Let_def by blast
qed

theorem extract_tries_linebreak_then_inline_witness:
  "invoked (extract_artwork_info_from_text demo_save ''catalog'' 0 text_linebreak 0 None) = [Linebreak]
   \<and> invoked (extract_artwork_info_from_text demo_save ''catalog'' 0 text_inline 0 None)
       = [Linebreak, Inline]
   \<and> returned (extract_artwork_info_from_text demo_save ''catalog'' 0 text_inline 0 None) \<noteq> None
   \<and> returned (extract_artwork_info_from_text demo_save ''catalog'' 0 text_plain 0 None) = None
   \<and> fst (parse_artwork_linebreak_format text_linebreak (new_Artwork 1, []))
   \<and> hd (invoked (extract_artwork_info_from_text demo_save ''catalog'' 0 text_plain 0 None)) = Linebreak
   \<and> fst (parse_artwork_inline_format text_inline
        (snd (parse_artwork_linebreak_format text_inline (new_Artwork 1, []))))
   \<and> confidence_score (fst (snd (parse_artwork_inline_format text_inline
        (snd (parse_artwork_linebreak_format text_inline (new_Artwork 1, [])))))) = 4 / 5"
  using extract_tries_linebreak_then_inline [of demo_save "''catalog''" 0 text_linebreak 0 None]
    extract_tries_linebreak_then_inline [of demo_save "''catalog''" 0 text_inline 0 None]
    extract_tries_linebreak_then_inline [of demo_save "''catalog''" 0 text_plain 0 None]
  by (simp add: Let_def run_linebreak_text_linebreak run_linebreak_text_inline
      run_inline_text_inline run_linebreak_text_plain run_inline_text_plain
      demo_extraction_inline demo_extraction_linebreak demo_extraction_plain del: One_nat_def)

section \<open>Fields are assigned once\<close>

lemma inline_agrees:
  "agrees s \<Longrightarrow> agrees (snd (parse_artwork_inline_format text s))
     \<and> extends s (snd (parse_artwork_inline_format text s))"
  unfolding parse_artwork_inline_format_def by (rule inline_loop_step)

lemma assigned_agrees:
  "agrees (case returned (extract_artwork_info_from_text save stem n text page_num img) of
             None \<Rightarrow> new_Artwork 0 | Some a \<Rightarrow> a,
           assigned (extract_artwork_info_from_text save stem n text page_num img))
   \<or> returned (extract_artwork_info_from_text save stem n text page_num img) = None"
proof -
  let ?ra = "parse_artwork_linebreak_format text (new_Artwork (page_num + 1), [])"
  let ?rb = "parse_artwork_inline_format text (snd ?ra)"
  have wi: "agrees (with_image save stem page_num n img (fst s), snd s)" if "agrees s" for s
    using that by (simp add: agrees_def)
  have a: "agrees (snd ?ra)" by (rule linebreak_agrees)
  with inline_agrees [of "snd ?ra" "text"] have b: "agrees (snd ?rb)" by simp
  show ?thesis
  proof (cases "fst ?ra")
    case True
    from extract_cases(1) [OF True, of save stem n img] wi [OF a] show ?thesis by simp
  next
    case False
    show ?thesis
    proof (cases "fst ?rb")
      case True
      from extract_cases(2) [OF False True, of save stem n img] wi [OF b] show ?thesis by simp
    next
      case nb: False
      from extract_cases(3) [OF False nb, of save stem n img] show ?thesis by simp
    qed
  qed
qed

lemma agrees_log:
  "agrees s \<Longrightarrow> distinct (map fst (snd s)) \<and> (\<forall>f v. (f, v) \<in> set (snd s) \<longrightarrow> v \<noteq> [])"
  unfolding agrees_def by blast

lemma assigned_distinct:
  "distinct (map fst (assigned (extract_artwork_info_from_text save stem n text page_num img)))
   \<and> (\<forall>f v. (f, v) \<in> set (assigned (extract_artwork_info_from_text save stem n text page_num img))
         \<longrightarrow> v \<noteq> [])"
proof -
  let ?ra = "parse_artwork_linebreak_format text (new_Artwork (page_num + 1), [])"
  let ?rb = "parse_artwork_inline_format text (snd ?ra)"
  have a: "agrees (snd ?ra)" by (rule linebreak_agrees)
  with inline_agrees [of "snd ?ra" "text"] have b: "agrees (snd ?rb)" by simp
  have "assigned (extract_artwork_info_from_text save stem n text page_num img) = snd (snd ?ra)
    \<or> assigned (extract_artwork_info_from_text save stem n text page_num img) = snd (snd ?rb)"
    using extract_cases [of "text" page_num save stem n img]
    by (cases "fst ?ra"; cases "fst ?rb") simp_all
  with agrees_log [OF a] agrees_log [OF b] show ?thesis by metis
qed

section \<open>The first candidate in scan order\<close>

lemma found_simps:
  "(found year_pattern l = []) = (search year_pattern l = None)"
  "(found dimensions_pattern l = []) = (search dimensions_pattern l = None)"
  "(found price_pattern l = []) = (search price_pattern l = None)"
  by (auto simp: found_def split: option.splits
      dest: year_match_nonempty dimensions_match_nonempty price_match_nonempty)

lemmas field_sel = field_value.simps(1-5) [symmetric]

lemma assign_value:
  "field_value g (fst (assign f v s)) = (if g = f then v else field_value g (fst s))"
  by (simp add: assign_def field_value_store)

lemma extract_year_value:
  "field_value g (fst (extract_year l s)) =
     (if g = Year \<and> field_value Year (fst s) = [] then found year_pattern l
      else field_value g (fst s))"
  by (auto simp add: extract_year_def found_def assign_value field_sel split: option.splits
      simp del: field_value.simps)

lemma extract_dimensions_value:
  "field_value g (fst (extract_dimensions l s)) =
     (if g = Dimensions \<and> field_value Dimensions (fst s) = [] then found dimensions_pattern l
      else field_value g (fst s))"
  by (auto simp add: extract_dimensions_def found_def assign_value field_sel split: option.splits
      simp del: field_value.simps)

lemma extract_price_value:
  "field_value g (fst (extract_price l s)) =
     (if g = Price \<and> field_value Price (fst s) = [] then found price_pattern l
      else field_value g (fst s))"
  by (auto simp add: extract_price_def found_def assign_value has_price_iff split: option.splits
      simp del: field_value.simps)

lemma extract_three_value:
  "field_value g (fst (extract_price l (extract_dimensions l (extract_year l s)))) =
     (if g \<in> {Year, Dimensions, Price} \<and> field_value g (fst s) = [] then candidate g l
      else field_value g (fst s))"
  by (cases g) (simp_all add: extract_price_value extract_dimensions_value extract_year_value
      del: field_value.simps)

lemma candidate_pattern_empty:
  "(candidate Medium p \<noteq> []) = (\<not> is_likely_metadata p \<and> length p > 5 \<and> no_pattern p)"
  by auto

lemma inline_part_value:
  "field_value f (fst (inline_part p s)) =
     (if field_value f (fst s) \<noteq> [] then field_value f (fst s) else candidate f p)"
proof -
  let ?s3 = "extract_price p (extract_dimensions p (extract_year p s))"
  have m: "field_value Medium (fst ?s3) = field_value Medium (fst s)"
    by (simp add: extract_three_value del: field_value.simps)
  have r: "inline_part p s =
      (if field_value Medium (fst s) = [] \<and> candidate Medium p \<noteq> []
       then assign Medium p ?s3 else ?s3)"
    unfolding candidate_pattern_empty m [symmetric]
    by (simp add: inline_part_def Let_def)
  show ?thesis
  proof (cases "f = Medium")
    case True
    have "candidate Medium p \<noteq> [] \<Longrightarrow> candidate Medium p = p"
      by (simp split: if_splits)
    with True m show ?thesis
      unfolding r by (auto simp add: assign_value simp del: candidate.simps field_value.simps)
  next
    case False
    then have "field_value f (fst (inline_part p s)) = field_value f (fst ?s3)"
      unfolding r by (simp add: assign_value del: candidate.simps field_value.simps)
    with False show ?thesis
      by (cases f) (simp_all add: extract_three_value del: field_value.simps)
  qed
qed

lemma fold_first_candidate:
  assumes "\<And>x s. field_value f (fst (step x s)) =
      (if field_value f (fst s) \<noteq> [] then field_value f (fst s) else cand x)"
  shows "field_value f (fst (fold step xs s)) =
      (if field_value f (fst s) \<noteq> [] then field_value f (fst s)
       else first_nonempty (map cand xs))"
proof (induction xs arbitrary: s)
  case Nil
  then show ?case by (simp add: first_nonempty_def)
next
  case (Cons x xs)
  show ?case
    using Cons.IH [of "step x s"] assms [of x s]
    by (simp add: first_nonempty_def del: field_value.simps)
qed

lemma fold_inline_part_value:
  "field_value f (fst (fold inline_part ps s)) =
     (if field_value f (fst s) \<noteq> [] then field_value f (fst s)
      else first_nonempty (map (candidate f) ps))"
  by (rule fold_first_candidate) (rule inline_part_value)

lemma search_empty:
  "search year_pattern [] = None" "search dimensions_pattern [] = None"
  "search price_pattern [] = None"
  by code_simp+

lemma line_candidate_empty: "line_candidate a t f [] = []"
  by (cases f) (simp_all add: found_def search_empty)

lemma linebreak_line_value:
  "field_value f (fst (linebreak_line l0 s)) =
     (if field_value f (fst s) \<noteq> [] then field_value f (fst s)
      else line_candidate (field_value Artist (fst s)) (field_value Title (fst s)) f (strip l0))"
proof (cases "strip l0 = []")
  case True
  then show ?thesis
    by (simp add: linebreak_line_def line_candidate_empty del: field_value.simps)
next
  case ne: False
  let ?l = "strip l0"
  let ?s3 = "extract_price ?l (extract_dimensions ?l (extract_year ?l s))"
  let ?a = "field_value Artist (fst s)"
  let ?t = "field_value Title (fst s)"
  have m: "field_value Medium (fst ?s3) = field_value Medium (fst s)"
    "field_value Artist (fst ?s3) = ?a" "field_value Title (fst ?s3) = ?t"
    by (simp_all add: extract_three_value del: field_value.simps)
  have c: "(line_candidate ?a ?t Medium ?l \<noteq> []) =
      (\<not> is_likely_metadata ?l \<and> length ?l > 5 \<and> no_pattern ?l \<and> ?l \<noteq> ?a \<and> ?l \<noteq> ?t)"
    by auto
  have r: "linebreak_line l0 s =
      (if field_value Medium (fst s) = [] \<and> line_candidate ?a ?t Medium ?l \<noteq> []
       then assign Medium ?l ?s3 else ?s3)"
    unfolding c m [symmetric] using ne
    by (simp add: linebreak_line_def Let_def field_sel del: field_value.simps)
  show ?thesis
  proof (cases "f = Medium")
    case True
    have "line_candidate ?a ?t Medium ?l \<noteq> [] \<Longrightarrow> line_candidate ?a ?t Medium ?l = ?l"
      by (simp split: if_splits)
    with True m(1) show ?thesis
      unfolding r
      by (auto simp add: assign_value simp del: candidate.simps line_candidate.simps
          field_value.simps)
  next
    case False
    then have "field_value f (fst (linebreak_line l0 s)) = field_value f (fst ?s3)"
      unfolding r
      by (simp add: assign_value del: candidate.simps line_candidate.simps field_value.simps)
    with False show ?thesis
      by (cases f) (simp_all add: extract_three_value del: field_value.simps)
  qed
qed

lemma fold_linebreak_line_value:
  "field_value f (fst (fold linebreak_line ls s)) =
     (if field_value f (fst s) \<noteq> [] then field_value f (fst s)
      else first_nonempty
        (map (\<lambda>l0. line_candidate (field_value Artist (fst s)) (field_value Title (fst s)) f
           (strip l0)) ls))"
proof (induction ls arbitrary: s)
  case Nil
  then show ?case by (simp add: first_nonempty_def)
next
  case (Cons l0 ls)
  have keep: "field_value Artist (fst (linebreak_line l0 s)) = field_value Artist (fst s)"
    "field_value Title (fst (linebreak_line l0 s)) = field_value Title (fst s)"
    by (simp_all add: linebreak_line_value del: field_value.simps)
  show ?case
    using Cons.IH [of "linebreak_line l0 s"] linebreak_line_value [of f l0 s]
    by (simp add: first_nonempty_def keep del: field_value.simps line_candidate.simps)
qed

lemma scan_head_value:
  "(found_title \<longrightarrow> found_artist) \<Longrightarrow>
   field_value f (fst (scan_head ls found_artist found_title s)) =
     (if f = Artist \<and> \<not> found_artist
      then (case filter substantial ls of [] \<Rightarrow> field_value Artist (fst s) | x # _ \<Rightarrow> x)
      else if f = Title \<and> \<not> found_title
      then (if found_artist
            then (case filter substantial ls of [] \<Rightarrow> field_value Title (fst s) | x # _ \<Rightarrow> x)
            else (case filter substantial ls of
                    x # y # _ \<Rightarrow> y | _ \<Rightarrow> field_value Title (fst s)))
      else field_value f (fst s))"
proof (induction ls arbitrary: found_artist found_title s)
  case Nil
  then show ?case by (simp del: field_value.simps)
next
  case (Cons line rest)
  show ?case
  proof (cases "length line < 3 \<or> isdigit line")
    case True
    then have "\<not> substantial line" by (simp add: substantial_def)
    with True Cons.IH [OF Cons.prems, of s] show ?thesis
      by (simp del: field_value.simps)
  next
    case skip: False
    show ?thesis
    proof (cases "is_likely_metadata line")
      case True
      then have n: "\<not> substantial line" by (simp add: substantial_def)
      show ?thesis
      proof (cases "found_artist \<and> found_title")
        case True
        with skip \<open>is_likely_metadata line\<close> show ?thesis by (simp del: field_value.simps)
      next
        case False
        with skip \<open>is_likely_metadata line\<close>
        have "scan_head (line # rest) found_artist found_title s
            = scan_head rest found_artist found_title s"
          by auto
        with n Cons.IH [OF Cons.prems, of s] show ?thesis by (simp del: field_value.simps)
      qed
    next
      case False
      with skip have y: "substantial line" by (simp add: substantial_def)
      show ?thesis
      proof (cases found_artist)
        case fa: False
        with Cons.prems have ft: "\<not> found_title" by simp
        from skip False fa have "scan_head (line # rest) found_artist found_title s
            = scan_head rest True found_title (assign Artist line s)"
          by simp
        with y fa ft Cons.IH [of found_title True "assign Artist line s"] show ?thesis
          by (auto simp add: assign_value split: list.splits simp del: field_value.simps)
      next
        case fa: True
        show ?thesis
        proof (cases found_title)
          case True
          with skip fa show ?thesis by (simp del: field_value.simps)
        next
          case ft: False
          from skip False fa ft have "scan_head (line # rest) found_artist found_title s
              = scan_head rest found_artist True (assign Title line s)"
            by simp
          with y fa ft Cons.IH [of True found_artist "assign Title line s"] show ?thesis
            by (auto simp add: assign_value split: list.splits simp del: field_value.simps)
        qed
      qed
    qed
  qed
qed

section \<open>Failed attempts of Strategy B\<close>

text \<open>
  C10.  An attempt of Strategy B that fails is not undone: the loop goes on from the
  record as the attempt left it, every assignment made so far stays in the record to
  the end of the loop, and the later attempts only add assignments to fields that were
  still empty.
\<close>

theorem failed_attempt_not_rolled_back:
  assumes "agrees s" and "inline_attempt sep text s = (False, s1)"
  shows "inline_loop (sep # seps) text s = inline_loop seps text s1
    \<and> extends s s1
    \<and> extends s1 (snd (inline_loop seps text s1))
    \<and> (\<forall>f v. (f, v) \<in> set (snd s1) \<longrightarrow>
          field_value f (fst (snd (inline_loop seps text s1))) = v)"
proof -
  from inline_attempt_step [OF assms(1), of sep "text"] assms(2)
  have 1: "agrees s1" "extends s s1" by simp_all
  from inline_loop_step [OF 1(1), of seps "text"]
  have 2: "extends s1 (snd (inline_loop seps text s1))" by simp
  have "field_value f (fst (snd (inline_loop seps text s1))) = v" if "(f, v) \<in> set (snd s1)" for f v
  proof -
    from 1(1) that have "v \<noteq> []" "field_value f (fst s1) = v"
      unfolding agrees_def by blast+
    with 2 show ?thesis unfolding extends_def by metis
  qed
  with 1(2) 2 assms(2) show ?thesis by simp
qed

theorem failed_attempt_not_rolled_back_witness:
  "title (fst (snd (inline_attempt '','' text_inline
       (snd (parse_artwork_linebreak_format text_inline (new_Artwork 1, [])))))) = ''b''
   \<and> 3 \<le> length (stripped_parts text_inline '','')
   \<and> field_value Title (fst (snd (inline_loop [''|''] text_inline
       (snd (inline_attempt '','' text_inline
         (snd (parse_artwork_linebreak_format text_inline (new_Artwork 1, []))))))))  = ''b''
   \<and> inline_loop ['','', ''|''] text_inline
       (snd (parse_artwork_linebreak_format text_inline (new_Artwork 1, [])))
     = inline_loop [''|''] text_inline
       (snd (inline_attempt '','' text_inline
         (snd (parse_artwork_linebreak_format text_inline (new_Artwork 1, [])))))"
proof -
  have parts: "stripped_parts text_inline '','' = [''a'', ''b'', ''c|1999|oil on wood'']"
    by code_simp
  from failed_attempt_not_rolled_back [OF linebreak_agrees [of text_inline 1],
      of "'',''" text_inline _ "[''|'']"] parts
  show ?thesis
    by (simp add: run_linebreak_text_inline run_comma_text_inline del: One_nat_def)
qed

lemma inline_part_artist_title:
  "artist (fst (inline_part p s)) = artist (fst s) \<and> title (fst (inline_part p s)) = title (fst s)"
  by (simp add: inline_part_def Let_def extract_year_def extract_dimensions_def
      extract_price_def assign_def split: option.splits)

lemma fold_inline_part_artist_title:
  "artist (fst (fold inline_part ps s)) = artist (fst s)
   \<and> title (fst (fold inline_part ps s)) = title (fst s)"
  by (induction ps arbitrary: s) (simp_all add: inline_part_artist_title)

text \<open>
  C6, as the code has it.  Strategy B is run on the record as Strategy A left it, whose
  artist and title may be set.  In an attempt with at least 3 parts the first part
  becomes the artist when the artist is still empty, and the second part the title when
  the title is still empty; an artist or title that is set is kept.
\<close>

theorem inline_attempt_artist_and_title:
  "(\<not> fst (parse_artwork_linebreak_format text (new_Artwork (page_num + 1), [])) \<longrightarrow>
      assigned (extract_artwork_info_from_text save stem n text page_num img)
      = snd (snd (parse_artwork_inline_format text
          (snd (parse_artwork_linebreak_format text (new_Artwork (page_num + 1), []))))))
   \<and> (3 \<le> length (stripped_parts text sep) \<longrightarrow>
        artist (fst (snd (inline_attempt sep text s)))
          = (if artist (fst s) = [] then stripped_parts text sep ! 0 else artist (fst s))
        \<and> title (fst (snd (inline_attempt sep text s)))
          = (if title (fst s) = [] then stripped_parts text sep ! 1 else title (fst s)))"
proof -
  have "assigned (extract_artwork_info_from_text save stem n text page_num img)
      = snd (snd (parse_artwork_inline_format text
          (snd (parse_artwork_linebreak_format text (new_Artwork (page_num + 1), [])))))"
    if "\<not> fst (parse_artwork_linebreak_format text (new_Artwork (page_num + 1), []))"
    using extract_cases(2,3) [OF that, of save stem n img]
    by (cases "fst (parse_artwork_inline_format text
          (snd (parse_artwork_linebreak_format text (new_Artwork (page_num + 1), []))))") simp_all
  moreover have "artist (fst (snd (inline_attempt sep text s)))
          = (if artist (fst s) = [] then stripped_parts text sep ! 0 else artist (fst s))
        \<and> title (fst (snd (inline_attempt sep text s)))
          = (if title (fst s) = [] then stripped_parts text sep ! 1 else title (fst s))"
    if "3 \<le> length (stripped_parts text sep)"
    using that
    by (simp add: inline_attempt_def Let_def set_confidence_def fold_inline_part_artist_title
        assign_def)
  ultimately show ?thesis by blast
qed

theorem inline_attempt_artist_and_title_witness:
  "artist (fst (snd (inline_attempt '','' text_inline
       (snd (parse_artwork_linebreak_format text_inline (new_Artwork 1, []))))))
     = ''a,b,c|1999|oil on wood''
   \<and> title (fst (snd (inline_attempt '','' text_inline
       (snd (parse_artwork_linebreak_format text_inline (new_Artwork 1, []))))))
     = ''b''
   \<and> stripped_parts text_inline '','' = [''a'', ''b'', ''c|1999|oil on wood'']
   \<and> assigned (extract_artwork_info_from_text demo_save ''catalog'' 0 text_inline 0 None)
     = [(Artist, ''a,b,c|1999|oil on wood''), (Year, ''1999''), (Title, ''b''),
        (Medium, ''oil on wood'')]"
proof -
  have parts: "stripped_parts text_inline '','' = [''a'', ''b'', ''c|1999|oil on wood'']"
    by code_simp
  from inline_attempt_artist_and_title [of text_inline 0 demo_save "''catalog''" 0 None "'',''"
      "snd (parse_artwork_linebreak_format text_inline (new_Artwork 1, []))"] parts
  show ?thesis
    by (simp add: run_linebreak_text_inline run_inline_text_inline del: One_nat_def)
qed

text \<open>
  C6, as stated, fails: on the sample text Strategy A fails and Strategy B is called, yet
  the artist is already set when B starts, and B's first part does not become the artist.
\<close>

theorem inline_starts_with_artist_set:
  "\<not> fst (parse_artwork_linebreak_format text_inline (new_Artwork 1, []))
   \<and> invoked (extract_artwork_info_from_text demo_save ''catalog'' 0 text_inline 0 None)
       = [Linebreak, Inline]
   \<and> artist (fst (snd (parse_artwork_linebreak_format text_inline (new_Artwork 1, []))))
       = ''a,b,c|1999|oil on wood''
   \<and> artist (fst (snd (parse_artwork_linebreak_format text_inline (new_Artwork 1, [])))) \<noteq> []
   \<and> returned (extract_artwork_info_from_text demo_save ''catalog'' 0 text_inline 0 None)
       = Some \<lparr>title = ''b'', artist = ''a,b,c|1999|oil on wood'', year = ''1999'',
          dimensions = [], medium = ''oil on wood'', price = None, image_path = None,
          image_data = None, page_number = 1, confidence_score = 4 / 5\<rparr>"
  by (simp add: run_linebreak_text_inline demo_extraction_inline del: One_nat_def)

section \<open>Scenario 3\<close>

lemma run_linebreak_scenario_3:
  "parse_artwork_linebreak_format scenario_3 (new_Artwork 1, []) =
    (False,
     \<lparr>title = [],
        artist = ''Mary Smith, Blue Horizon, acrylic on canvas, 2021, 30x40 cm'',
        year = ''2021'', dimensions = ''30x40 cm'', medium = [], price = None,
        image_path = None, image_data = None, page_number = 1, confidence_score = 3 / 5\<rparr>,
     [(Artist, ''Mary Smith, Blue Horizon, acrylic on canvas, 2021, 30x40 cm''),
      (Year, ''2021''), (Dimensions, ''30x40 cm'')])"
  by code_simp

lemma run_comma_scenario_3:
  "inline_attempt '','' scenario_3
     (\<lparr>title = [],
        artist = ''Mary Smith, Blue Horizon, acrylic on canvas, 2021, 30x40 cm'',
        year = ''2021'', dimensions = ''30x40 cm'', medium = [], price = None,
        image_path = None, image_data = None, page_number = 1, confidence_score = 3 / 5\<rparr>,
     [(Artist, ''Mary Smith, Blue Horizon, acrylic on canvas, 2021, 30x40 cm''),
      (Year, ''2021''), (Dimensions, ''30x40 cm'')]) =
    (True,
     \<lparr>title = ''Blue Horizon'',
        artist = ''Mary Smith, Blue Horizon, acrylic on canvas, 2021, 30x40 cm'',
        year = ''2021'', dimensions = ''30x40 cm'', medium = ''acrylic on canvas'',
        price = None, image_path = None, image_data = None, page_number = 1,
        confidence_score = 1\<rparr>,
     [(Artist, ''Mary Smith, Blue Horizon, acrylic on canvas, 2021, 30x40 cm''),
      (Year, ''2021''), (Dimensions, ''30x40 cm''), (Title, ''Blue Horizon''),
      (Medium, ''acrylic on canvas'')])"
  by code_simp

lemma run_parts_scenario_3:
  "stripped_parts scenario_3 '','' =
     [''Mary Smith'', ''Blue Horizon'', ''acrylic on canvas'', ''2021'', ''30x40 cm'']"
  by code_simp

lemma run_inline_scenario_3:
  "parse_artwork_inline_format scenario_3
     (\<lparr>title = [],
        artist = ''Mary Smith, Blue Horizon, acrylic on canvas, 2021, 30x40 cm'',
        year = ''2021'', dimensions = ''30x40 cm'', medium = [], price = None,
        image_path = None, image_data = None, page_number = 1, confidence_score = 3 / 5\<rparr>,
     [(Artist, ''Mary Smith, Blue Horizon, acrylic on canvas, 2021, 30x40 cm''),
      (Year, ''2021''), (Dimensions, ''30x40 cm'')]) =
    (True,
     \<lparr>title = ''Blue Horizon'',
        artist = ''Mary Smith, Blue Horizon, acrylic on canvas, 2021, 30x40 cm'',
        year = ''2021'', dimensions = ''30x40 cm'', medium = ''acrylic on canvas'',
        price = None, image_path = None, image_data = None, page_number = 1,
        confidence_score = 1\<rparr>,
     [(Artist, ''Mary Smith, Blue Horizon, acrylic on canvas, 2021, 30x40 cm''),
      (Year, ''2021''), (Dimensions, ''30x40 cm''), (Title, ''Blue Horizon''),
      (Medium, ''acrylic on canvas'')])"
  by (simp add: parse_artwork_inline_format_def separators_def run_comma_scenario_3
      del: One_nat_def)

lemma extraction_scenario_3:
  "extract_artwork_info_from_text save stem n scenario_3 0 None =
     \<lparr>returned = Some \<lparr>title = ''Blue Horizon'',
          artist = ''Mary Smith, Blue Horizon, acrylic on canvas, 2021, 30x40 cm'',
          year = ''2021'', dimensions = ''30x40 cm'', medium = ''acrylic on canvas'',
          price = None, image_path = None, image_data = None, page_number = 1,
          confidence_score = 1\<rparr>,
      invoked = [Linebreak, Inline],
      assigned = [(Artist, ''Mary Smith, Blue Horizon, acrylic on canvas, 2021, 30x40 cm''),
        (Year, ''2021''), (Dimensions, ''30x40 cm''), (Title, ''Blue Horizon''),
        (Medium, ''acrylic on canvas'')]\<rparr>"
  using extract_cases(2) [of scenario_3 0 save stem n None]
  by (simp add: run_linebreak_scenario_3 run_inline_scenario_3 with_image_def
      del: One_nat_def)

text \<open>
  C5, as the code has it.  On the text of scenario 3 Strategy A fails with 3 fields of
  5: it has set the artist to the whole line, the year to 2021 and the dimensions to
  30x40 cm.  Strategy B then succeeds on the comma: it sets the title to the second part
  and the medium to the third, and keeps the artist, the year and the dimensions.
\<close>

theorem scenario_3_extraction:
  "parse_artwork_linebreak_format scenario_3 (new_Artwork 1, []) =
    (False,
     \<lparr>title = [], artist = scenario_3, year = ''2021'', dimensions = ''30x40 cm'',
        medium = [], price = None, image_path = None, image_data = None, page_number = 1,
        confidence_score = 3 / 5\<rparr>,
     [(Artist, scenario_3), (Year, ''2021''), (Dimensions, ''30x40 cm'')])
   \<and> stripped_parts scenario_3 '','' =
     [''Mary Smith'', ''Blue Horizon'', ''acrylic on canvas'', ''2021'', ''30x40 cm'']
   \<and> fst (inline_attempt '','' scenario_3
         (snd (parse_artwork_linebreak_format scenario_3 (new_Artwork 1, []))))
   \<and> extract_artwork_info_from_text save stem n scenario_3 0 None =
     \<lparr>returned = Some \<lparr>title = ''Blue Horizon'', artist = scenario_3, year = ''2021'',
          dimensions = ''30x40 cm'', medium = ''acrylic on canvas'', price = None,
          image_path = None, image_data = None, page_number = 1, confidence_score = 1\<rparr>,
      invoked = [Linebreak, Inline],
      assigned = [(Artist, scenario_3), (Year, ''2021''), (Dimensions, ''30x40 cm''),
        (Title, ''Blue Horizon''), (Medium, ''acrylic on canvas'')]\<rparr>"
proof -
  have s: "''Mary Smith, Blue Horizon, acrylic on canvas, 2021, 30x40 cm'' = scenario_3"
    by (simp add: scenario_3_def)
  show ?thesis
    using run_linebreak_scenario_3 run_parts_scenario_3 run_comma_scenario_3
      extraction_scenario_3 [of save stem n]
    unfolding s by (simp del: One_nat_def)
qed

text \<open>
  C5, as stated, fails: the artist of the record returned for scenario 3 is the whole
  line, not its first part.
\<close>

theorem scenario_3_artist_is_whole_line:
  "map_option artist (returned (extract_artwork_info_from_text demo_save ''catalog'' 0 scenario_3 0 None))
     = Some ''Mary Smith, Blue Horizon, acrylic on canvas, 2021, 30x40 cm''
   \<and> map_option artist (returned (extract_artwork_info_from_text demo_save ''catalog'' 0 scenario_3 0 None))
     \<noteq> Some ''Mary Smith''"
  by (simp add: extraction_scenario_3)

section \<open>Pages that are skipped\<close>

lemma process_page_skip:
  "skips self p \<Longrightarrow> process_page save self p page_num = ([], [Skipping (page_num + 1)])"
  by (simp add: process_page_def skips_def Let_def)

lemma process_page_no_skip:
  assumes "\<not> skips self p"
  shows "snd (process_page save self p page_num) = [FieldExtractor (get_text p) page_num]"
proof -
  let ?images = "extract_images (doc self) p"
  from assms obtain i rest where images: "?images = i # rest"
    by (cases ?images) (auto simp: skips_def)
  show ?thesis
  proof (cases "length ?images = 1 \<or> (length ?images > 0 \<and> is_main_artwork_page (get_text p))")
    case True
    with assms show ?thesis
      by (simp add: process_page_def skips_def Let_def extract_artwork_info_def
          split: option.splits)
  next
    case False
    with images have more: "length ?images > 1" by simp
    have "split_page_into_sections p ?images = [(get_text p, Some i)]"
      by (simp add: split_page_into_sections_def images)
    with assms False more show ?thesis
      by (simp add: process_page_def skips_def Let_def split_beta)
  qed
qed

lemma no_images_skips: "get_images p = [] \<Longrightarrow> skips self p"
  by (simp add: skips_def extract_images_def)

text \<open>
  C3.  \<open>process_page\<close> skips a page, returning no record and never calling the field
  extractor, exactly when no image is retained, or the text is longer than 2000
  characters and fewer than 2 images are retained.  A page it does not skip has the
  field extractor called on its text.  A page with no image is skipped.
\<close>

theorem process_page_skips_iff:
  "(skips self p \<longrightarrow> process_page save self p page_num = ([], [Skipping (page_num + 1)]))
   \<and> (\<not> skips self p \<longrightarrow>
        snd (process_page save self p page_num) = [FieldExtractor (get_text p) page_num])
   \<and> ((fst (process_page save self p page_num) = []
        \<and> (\<forall>t k. FieldExtractor t k \<notin> set (snd (process_page save self p page_num))))
       = skips self p)
   \<and> (get_images p = [] \<longrightarrow> skips self p)"
proof -
  have "(fst (process_page save self p page_num) = []
        \<and> (\<forall>t k. FieldExtractor t k \<notin> set (snd (process_page save self p page_num))))
       = skips self p"
  proof (cases "skips self p")
    case True
    with process_page_skip [OF True, of save page_num] show ?thesis by simp
  next
    case False
    with process_page_no_skip [OF False, of save page_num] show ?thesis by auto
  qed
  with process_page_skip [of self p save page_num] process_page_no_skip [of self p save page_num]
    no_images_skips [of p self]
  show ?thesis by blast
qed

theorem process_page_skips_iff_witness:
  "process_page demo_save demo_extractor \<lparr>get_text = text_linebreak, get_images = []\<rparr> 0
     = ([], [Skipping 1])
   \<and> \<not> skips demo_extractor \<lparr>get_text = text_linebreak, get_images = [3]\<rparr>
   \<and> snd (process_page demo_save demo_extractor \<lparr>get_text = text_linebreak, get_images = [3]\<rparr> 0)
     = [FieldExtractor text_linebreak 0]"
proof -
  have images: "extract_images (doc demo_extractor) \<lparr>get_text = text_linebreak, get_images = [3]\<rparr>
      = [\<lparr>xref = 3, width = 300, height = 300, image_bytes = [], extension = ''png''\<rparr>]"
    by (simp add: extract_images_def demo_extractor_def demo_doc_def demo_images_def image_of_def)
  have len: "length text_linebreak = 24"
    by (simp add: text_linebreak_def)
  have no: "\<not> skips demo_extractor \<lparr>get_text = text_linebreak, get_images = [3]\<rparr>"
    by (simp add: skips_def images len)
  from process_page_skips_iff [of demo_extractor "\<lparr>get_text = text_linebreak, get_images = []\<rparr>"
      demo_save 0]
    process_page_skips_iff [of demo_extractor "\<lparr>get_text = text_linebreak, get_images = [3]\<rparr>"
      demo_save 0] no
  show ?thesis by simp
qed

section \<open>A document that cannot be opened\<close>

lemma process_files_open_failure:
  assumes "pymupdf_open bad = Inl e"
  shows "\<forall>path \<in> set before. \<exists>d. pymupdf_open path = Inr d \<Longrightarrow>
    process_files pymupdf_open save (before @ bad # rest) all_artworks written =
      (written @ map (\<lambda>path. json_file save path (projr (pymupdf_open path))) before, Inl e)"
proof (induction before arbitrary: all_artworks written)
  case Nil
  with assms show ?case by (simp add: new_extractor_def)
next
  case (Cons path before)
  from Cons.prems obtain d where d: "pymupdf_open path = Inr d" by auto
  from Cons.prems have "\<forall>path \<in> set before. \<exists>d. pymupdf_open path = Inr d" by simp
  from Cons.IH [OF this] d show ?case
    by (simp add: new_extractor_def Let_def json_file_def)
qed

text \<open>
  C8, as the code has it.  When a document cannot be opened, the exception leaves
  \<open>process_pdf_files\<close>: the result is the error and not a list of records, no later
  document is processed and no summary file is written.  What remains are the JSON
  files of the documents before it.
\<close>

theorem open_failure_ends_batch:
  assumes "pymupdf_open bad = Inl e"
    and "\<forall>path \<in> set before. \<exists>d. pymupdf_open path = Inr d"
  shows "process_pdf_files pymupdf_open save (before @ bad # rest) =
      (map (\<lambda>path. json_file save path (projr (pymupdf_open path))) before, Inl e)"
  using process_files_open_failure [OF assms, of save rest "[]" "[]"]
  by (simp add: process_pdf_files_def)

lemma demo_open_catalog:
  "demo_open ''catalog'' = Inr demo_doc" "demo_open ''broken'' = Inl DocumentOpenError"
  by (simp_all add: demo_open_def)

lemma demo_json_file:
  "json_file demo_save ''catalog'' demo_doc =
     (''catalog_artworks.json'',
      [\<lparr>title = ''Dusk'', artist = ''Ann Lee'', year = ''1999'', dimensions = ''2x3 cm'',
        medium = [], price = None, image_path = Some ''catalog.png'', image_data = Some ''png'',
        page_number = 1, confidence_score = 4 / 5\<rparr>])"
  using demo_extract_all
  by (simp add: json_file_def demo_extractor_def preview_def del: One_nat_def)

theorem open_failure_ends_batch_witness:
  "process_pdf_files demo_open demo_save ([''catalog''] @ ''broken'' # [''catalog'']) =
     ([(''catalog_artworks.json'',
        [\<lparr>title = ''Dusk'', artist = ''Ann Lee'', year = ''1999'', dimensions = ''2x3 cm'',
          medium = [], price = None, image_path = Some ''catalog.png'', image_data = Some ''png'',
          page_number = 1, confidence_score = 4 / 5\<rparr>])],
      Inl DocumentOpenError)"
  using open_failure_ends_batch [of demo_open "''broken''" DocumentOpenError "[''catalog'']"
      demo_save "[''catalog'']"]
  by (simp add: demo_open_catalog demo_json_file del: One_nat_def)

text \<open>
  C8, as stated, fails: of three files the second cannot be opened; the batch returns the
  error, the record of the first document is not returned, and the third document is not
  processed, though it can be opened.
\<close>

theorem batch_stops_at_broken_document:
  "process_pdf_files demo_open demo_save [''catalog'', ''broken'', ''catalog'']
     = ([json_file demo_save ''catalog'' demo_doc], Inl DocumentOpenError)
   \<and> snd (process_pdf_files demo_open demo_save [''catalog''])
     = Inr [\<lparr>title = ''Dusk'', artist = ''Ann Lee'', year = ''1999'', dimensions = ''2x3 cm'',
          medium = [], price = None, image_path = Some ''catalog.png'', image_data = Some ''png'',
          page_number = 1, confidence_score = 4 / 5\<rparr>]"
proof -
  have e: "extract_all demo_save \<lparr>pdf_path = ''catalog'', doc = demo_doc, artworks = []\<rparr>
      = [\<lparr>title = ''Dusk'', artist = ''Ann Lee'', year = ''1999'', dimensions = ''2x3 cm'',
          medium = [], price = None, image_path = Some ''catalog.png'', image_data = Some ''png'',
          page_number = 1, confidence_score = 4 / 5\<rparr>]"
    using demo_extract_all by (simp add: demo_extractor_def)
  show ?thesis
    by (simp add: process_pdf_files_def new_extractor_def demo_open_catalog json_file_def e
        Let_def del: One_nat_def)
qed

section \<open>Every field gets its first candidate, once\<close>

lemma first_nonempty_empty: "first_nonempty (map (\<lambda>l. []) xs) = []"
  by (induction xs) (simp_all add: first_nonempty_def)

lemma new_Artwork_value: "field_value f (new_Artwork k) = []"
  by (cases f) (simp_all add: new_Artwork_def)

lemma linebreak_value:
  "field_value f (fst (snd (parse_artwork_linebreak_format text (new_Artwork k, []))))
     = linebreak_candidate f (stripped_parts text [CHR 0x0A])"
proof -
  let ?lines = "stripped_parts text [CHR 0x0A]"
  let ?heads = "filter substantial (take 5 ?lines)"
  let ?a = "case ?heads of [] \<Rightarrow> [] | x # _ \<Rightarrow> x"
  let ?t = "case ?heads of x # y # _ \<Rightarrow> y | _ \<Rightarrow> []"
  let ?s1 = "scan_head (take 5 ?lines) False False (new_Artwork k, [])"
  have s1: "field_value g (fst ?s1) = (if g = Artist then ?a else if g = Title then ?t else [])" for g
    using scan_head_value [of False False g "take 5 ?lines" "(new_Artwork k, [])",
        unfolded fst_conv new_Artwork_value]
    by (simp del: field_value.simps)
  have r: "field_value f (fst (snd (parse_artwork_linebreak_format text (new_Artwork k, []))))
      = field_value f (fst (fold linebreak_line ?lines ?s1))"
    by (simp add: parse_artwork_linebreak_format_def Let_def set_confidence_def
        del: field_value.simps)
  show ?thesis
  proof (cases "f = Artist \<or> f = Title")
    case True
    then show ?thesis
      unfolding r fold_linebreak_line_value s1
      by (auto simp add: linebreak_candidate_def Let_def first_nonempty_empty
          simp del: field_value.simps)
  next
    case False
    then show ?thesis
      unfolding r fold_linebreak_line_value s1
      by (cases f) (simp_all add: linebreak_candidate_def Let_def del: field_value.simps
          line_candidate.simps)
  qed
qed

lemma inline_attempt_value:
  assumes "3 \<le> length (stripped_parts text sep)"
  shows "field_value f (fst (snd (inline_attempt sep text s))) =
     (if field_value f (fst s) \<noteq> [] then field_value f (fst s)
      else attempt_candidate f (stripped_parts text sep))"
proof -
  let ?parts = "stripped_parts text sep"
  let ?s1 = "if field_value Artist (fst s) = [] then assign Artist (?parts ! 0) s else s"
  let ?s2 = "if field_value Title (fst ?s1) = [] then assign Title (?parts ! 1) ?s1 else ?s1"
  from assms have "?parts ! 0 \<in> set ?parts" "?parts ! 1 \<in> set ?parts"
    by (auto intro: nth_mem)
  then have ne: "?parts ! 0 \<noteq> []" "?parts ! 1 \<noteq> []"
    by (blast dest: stripped_parts_nonempty)+
  have s2: "field_value g (fst ?s2) =
      (if field_value g (fst s) \<noteq> [] then field_value g (fst s)
       else if g = Artist then ?parts ! 0 else if g = Title then ?parts ! 1 else [])" for g
    by (auto simp add: assign_value simp del: field_value.simps)
  have r: "field_value f (fst (snd (inline_attempt sep text s)))
      = field_value f (fst (fold inline_part (drop 2 ?parts) ?s2))"
    using assms
    by (simp add: inline_attempt_def Let_def set_confidence_def field_sel
        del: field_value.simps)
  show ?thesis
    unfolding r fold_inline_part_value s2 using ne
    by (cases f) (simp_all add: first_nonempty_empty del: field_value.simps)
qed

text \<open>
  C7.  In one call of the field extractor no field is assigned twice: the fields in the
  list of assignments are distinct.  Every assignment writes a non-empty text, and the
  record that is returned holds, in each assigned field, the text written by that one
  assignment; its other fields are empty.  Strategy B, started on a record that agrees
  with its assignments, only adds assignments and leaves every non-empty field as it is.
  The text a field gets is the first that the scan offers it: after Strategy A on a new
  record every field holds its first candidate in the order of the lines, and an attempt
  of Strategy B with at least 3 parts keeps every non-empty field and gives an empty
  one its first candidate in the order of the parts.
\<close>

theorem fields_assigned_at_most_once:
  "(let e = extract_artwork_info_from_text save stem n text page_num img
    in distinct (map fst (assigned e))
       \<and> (\<forall>f v. (f, v) \<in> set (assigned e) \<longrightarrow>
             v \<noteq> [] \<and> (\<forall>a. returned e = Some a \<longrightarrow> field_value f a = v))
       \<and> (\<forall>f a. returned e = Some a \<longrightarrow> field_value f a \<noteq> [] \<longrightarrow> f \<in> fst ` set (assigned e)))
   \<and> (agrees s \<longrightarrow> extends s (snd (parse_artwork_inline_format text s)))
   \<and> (\<forall>f. field_value f (fst (snd (parse_artwork_linebreak_format text (new_Artwork k, []))))
           = linebreak_candidate f (stripped_parts text [CHR 0x0A]))
   \<and> (3 \<le> length (stripped_parts text sep) \<longrightarrow>
        (\<forall>f. field_value f (fst (snd (inline_attempt sep text s))) =
           (if field_value f (fst s) \<noteq> [] then field_value f (fst s)
            else attempt_candidate f (stripped_parts text sep))))"
proof -
  let ?e = "extract_artwork_info_from_text save stem n text page_num img"
  from assigned_agrees [of save stem n "text" page_num img]
  have "\<forall>a. returned ?e = Some a \<longrightarrow> agrees (a, assigned ?e)" by auto
  then have "(\<forall>f v. (f, v) \<in> set (assigned ?e) \<longrightarrow>
             (\<forall>a. returned ?e = Some a \<longrightarrow> field_value f a = v))
       \<and> (\<forall>f a. returned ?e = Some a \<longrightarrow> field_value f a \<noteq> [] \<longrightarrow> f \<in> fst ` set (assigned ?e))"
    unfolding agrees_def by (metis fst_conv snd_conv)
  with assigned_distinct [of save stem n "text" page_num img] inline_agrees [of s "text"]
  have log: "(let e = ?e
    in distinct (map fst (assigned e))
       \<and> (\<forall>f v. (f, v) \<in> set (assigned e) \<longrightarrow>
             v \<noteq> [] \<and> (\<forall>a. returned e = Some a \<longrightarrow> field_value f a = v))
       \<and> (\<forall>f a. returned e = Some a \<longrightarrow> field_value f a \<noteq> [] \<longrightarrow> f \<in> fst ` set (assigned e)))
   \<and> (agrees s \<longrightarrow> extends s (snd (parse_artwork_inline_format text s)))"
    unfolding Let_def by blast
  have a: "\<forall>f. field_value f (fst (snd (parse_artwork_linebreak_format text (new_Artwork k, []))))
           = linebreak_candidate f (stripped_parts text [CHR 0x0A])"
    using linebreak_value [of _ "text" k] by blast
  have b: "3 \<le> length (stripped_parts text sep) \<longrightarrow>
        (\<forall>f. field_value f (fst (snd (inline_attempt sep text s))) =
           (if field_value f (fst s) \<noteq> [] then field_value f (fst s)
            else attempt_candidate f (stripped_parts text sep)))"
    using inline_attempt_value [of "text" sep _ s] by blast
  show ?thesis
    by (rule conjI [OF conjunct1 [OF log] conjI [OF conjunct2 [OF log] conjI [OF a b]]])
qed

theorem fields_assigned_at_most_once_witness:
  "assigned (extract_artwork_info_from_text demo_save ''catalog'' 0 text_inline 0 None)
     = [(Artist, ''a,b,c|1999|oil on wood''), (Year, ''1999''), (Title, ''b''),
        (Medium, ''oil on wood'')]
   \<and> distinct [Artist, Year, Title, Medium]
   \<and> agrees (new_Artwork 1, [])
   \<and> extends (new_Artwork 1, []) (snd (parse_artwork_inline_format text_inline (new_Artwork 1, [])))
   \<and> 3 \<le> length (stripped_parts text_inline '','')
   \<and> attempt_candidate Title (stripped_parts text_inline '','') = ''b''
   \<and> field_value Title (fst (snd (inline_attempt '','' text_inline (new_Artwork 1, [])))) = ''b''"
proof -
  have parts: "stripped_parts text_inline '','' = [''a'', ''b'', ''c|1999|oil on wood'']"
    by code_simp
  from fields_assigned_at_most_once [of demo_save "''catalog''" 0 text_inline 0 None
      "(new_Artwork 1, [])" 1 "'',''"] agrees_new [of 1] parts
  have "field_value Title (fst (snd (inline_attempt '','' text_inline (new_Artwork 1, []))))
      = (if field_value Title (fst (new_Artwork 1, [])) \<noteq> []
         then field_value Title (fst (new_Artwork 1, []))
         else attempt_candidate Title (stripped_parts text_inline '',''))"
    and "extends (new_Artwork 1, []) (snd (parse_artwork_inline_format text_inline (new_Artwork 1, [])))"
    by simp_all
  with parts agrees_new [of 1] show ?thesis
    by (simp add: demo_extraction_inline new_Artwork_def del: One_nat_def)
qed

end
